theory Spec2Isabelle
  imports Main "HOL-Library.AList" "HOL-Library.Char_ord" "HOL-Library.List_Lexorder"
    "HOL-Library.Multiset"
begin

section \<open>Kernel configurations: data model\<close>

text \<open>
  The Go type \<^verbatim>\<open>Config\<close> is \<^verbatim>\<open>map[string]string\<close>. A Go map holds every key
  once and \<^verbatim>\<open>range\<close> enumerates it in an unspecified order. A configuration is
  modelled as the list of its (option, value) pairs in the order in which one
  \<^verbatim>\<open>range\<close> loop visits them; \<open>isConfig\<close> says that the list is such an enumeration
  (no option twice). Theorems are stated for every such list, hence for every
  iteration order; where a property relates two loops over the same map, each
  loop has its own enumeration of it (lists with the same \<open>map_of\<close>). Strings are byte strings (\<open>char list\<close>); \<open><\<close> on them is the
  lexicographic order on bytes, as Go's \<^verbatim>\<open><\<close> on strings.

  The comma-ok lookup \<^verbatim>\<open>v, ok := cfg[opt]\<close> is \<open>map_of cfg opt\<close>, the assignment
  \<^verbatim>\<open>cfg[opt] = val\<close> is \<open>AList.update opt val cfg\<close> and \<^verbatim>\<open>delete(cfg, opt)\<close>
  is \<open>AList.delete opt cfg\<close>.

  A nil map and an empty map are both \<open>[]\<close>, and a nil slice and an empty slice
  are both \<open>[]\<close>: Go reads, ranges over and measures them alike. (Only
  \<^verbatim>\<open>reflect.DeepEqual\<close> of the tests tells a nil slice from an empty one;
  \<^verbatim>\<open>DiffConfig\<close> leaves a sequence nil when it appends nothing to it.)
\<close>

type_synonym Config = "(string \<times> string) list"

definition isConfig :: "Config \<Rightarrow> bool" where
  "isConfig cfg = distinct (map fst cfg)"

text \<open>\<^verbatim>\<open>cfg[opt]\<close> without comma-ok: the zero value \<^verbatim>\<open>""\<close> for a missing key.\<close>

definition index :: "Config \<Rightarrow> string \<Rightarrow> string" where
  "index cfg opt = (case map_of cfg opt of None \<Rightarrow> [] | Some v \<Rightarrow> v)"

record ConfigValue =
  cv_Opt :: string
  cv_Val :: string

record ConfigChange =
  cc_Opt :: string
  cc_OldVal :: string
  cc_NewVal :: string

record ConfigDiff =
  InOld :: "ConfigValue list"
  Changes :: "ConfigChange list"
  InNew :: "ConfigValue list"

section \<open>Equal\<close>

definition containedIn :: "Config \<Rightarrow> Config \<Rightarrow> bool" where
  "containedIn cfg other =
     list_all (\<lambda>(opt, val). case map_of other opt of
                  None \<Rightarrow> False
                | Some otherval \<Rightarrow> val = otherval) cfg"

definition Equal :: "Config \<Rightarrow> Config \<Rightarrow> bool" where
  "Equal cfg other = (containedIn cfg other \<and> containedIn other cfg)"

section \<open>DiffConfig\<close>

text \<open>The body of the loop over \<^verbatim>\<open>old\<close>.\<close>

definition diffOldStep :: "Config \<Rightarrow> string \<times> string \<Rightarrow> ConfigDiff \<Rightarrow> ConfigDiff" where
  "diffOldStep new = (\<lambda>(opt, oldval) diff.
     case map_of new opt of
       None \<Rightarrow> diff\<lparr>InOld := InOld diff @ [\<lparr>cv_Opt = opt, cv_Val = oldval\<rparr>]\<rparr>
     | Some newval \<Rightarrow>
         if oldval \<noteq> newval
         then diff\<lparr>Changes := Changes diff @
                [\<lparr>cc_Opt = opt, cc_OldVal = oldval, cc_NewVal = newval\<rparr>]\<rparr>
         else diff)"

text \<open>The body of the loop over \<^verbatim>\<open>new\<close>.\<close>

definition diffNewStep :: "Config \<Rightarrow> string \<times> string \<Rightarrow> ConfigDiff \<Rightarrow> ConfigDiff" where
  "diffNewStep old = (\<lambda>(opt, newval) diff.
     case map_of old opt of
       None \<Rightarrow> diff\<lparr>InNew := InNew diff @ [\<lparr>cv_Opt = opt, cv_Val = newval\<rparr>]\<rparr>
     | Some _ \<Rightarrow> diff)"

text \<open>
  \<^verbatim>\<open>ConfigDiff.sort\<close> has a value receiver, but the three slices of the copy
  share their backing arrays with the caller's, so the in-place \<^verbatim>\<open>sort.Slice\<close>
  calls sort the caller's slices. \<^verbatim>\<open>sort.Slice\<close> is not stable; it returns some
  permutation that is ordered by the \<^verbatim>\<open>less\<close> function. The model uses insertion
  sort by key; lemma \<open>sort_key_unique\<close> below shows that on slices without
  repeated option names (all that \<^verbatim>\<open>DiffConfig\<close> builds from maps) every such
  permutation is the same list.
\<close>

definition ConfigDiff_sort :: "ConfigDiff \<Rightarrow> ConfigDiff" where
  "ConfigDiff_sort diff =
     \<lparr>InOld = sort_key cv_Opt (InOld diff),
      Changes = sort_key cc_Opt (Changes diff),
      InNew = sort_key cv_Opt (InNew diff)\<rparr>"

definition emptyDiff :: ConfigDiff where
  "emptyDiff = \<lparr>InOld = [], Changes = [], InNew = []\<rparr>"

definition DiffConfig :: "Config \<Rightarrow> Config \<Rightarrow> ConfigDiff" where
  "DiffConfig old new =
     ConfigDiff_sort (fold (diffNewStep old) new (fold (diffOldStep new) old emptyDiff))"

section \<open>ApplyDiff\<close>

datatype applyError =
    invalidOldValueError ConfigValue
  | invalidChangeError ConfigChange
  | mismatchedChangeError ConfigChange string
  | invalidNewValueError ConfigValue

text \<open>The copy loop \<^verbatim>\<open>for opt, val := range cfg { new[opt] = val }\<close>.\<close>

definition copyConfig :: "Config \<Rightarrow> Config" where
  "copyConfig cfg = fold (\<lambda>(opt, val) new. AList.update opt val new) cfg []"

text \<open>
  The three phases. Each reads \<^verbatim>\<open>cfg\<close> (never written) and updates \<^verbatim>\<open>new\<close>;
  an error return leaves the loop at once and carries no configuration
  (\<^verbatim>\<open>return nil, err\<close>).
\<close>

fun applyInOld :: "Config \<Rightarrow> Config \<Rightarrow> ConfigValue list \<Rightarrow> applyError + Config" where
  "applyInOld cfg new [] = Inr new"
| "applyInOld cfg new (cv # cvs) =
     (case map_of cfg (cv_Opt cv) of
        None \<Rightarrow> Inl (invalidOldValueError cv)
      | Some _ \<Rightarrow> applyInOld cfg (AList.delete (cv_Opt cv) new) cvs)"

fun applyChanges :: "Config \<Rightarrow> Config \<Rightarrow> ConfigChange list \<Rightarrow> applyError + Config" where
  "applyChanges cfg new [] = Inr new"
| "applyChanges cfg new (cc # ccs) =
     (case map_of cfg (cc_Opt cc) of
        None \<Rightarrow> Inl (invalidChangeError cc)
      | Some oldval \<Rightarrow>
          if oldval \<noteq> cc_OldVal cc then Inl (mismatchedChangeError cc oldval)
          else applyChanges cfg (AList.update (cc_Opt cc) (cc_NewVal cc) new) ccs)"

fun applyInNew :: "Config \<Rightarrow> Config \<Rightarrow> ConfigValue list \<Rightarrow> applyError + Config" where
  "applyInNew cfg new [] = Inr new"
| "applyInNew cfg new (cv # cvs) =
     (case map_of cfg (cv_Opt cv) of
        Some _ \<Rightarrow> Inl (invalidNewValueError cv)
      | None \<Rightarrow> applyInNew cfg (AList.update (cv_Opt cv) (cv_Val cv) new) cvs)"

definition ApplyDiff :: "Config \<Rightarrow> ConfigDiff \<Rightarrow> applyError + Config" where
  "ApplyDiff cfg diff =
     (case applyInOld cfg (copyConfig cfg) (InOld diff) of
        Inl e \<Rightarrow> Inl e
      | Inr new1 \<Rightarrow>
          (case applyChanges cfg new1 (Changes diff) of
             Inl e \<Rightarrow> Inl e
           | Inr new2 \<Rightarrow> applyInNew cfg new2 (InNew diff)))"

section \<open>ParseConfig\<close>

text \<open>
  The functions of Go's \<^verbatim>\<open>strings\<close> package that \<^verbatim>\<open>parseConfigLine\<close> calls, on byte
  strings. \<^verbatim>\<open>strings.TrimSpace\<close> removes leading and trailing runes for which
  \<^verbatim>\<open>unicode.IsSpace\<close> holds; \<open>spaceRunes\<close> lists the UTF-8 encodings of these
  runes (U+0009..U+000D, U+0020, U+0085, U+00A0, U+1680, U+2000..U+200A,
  U+2028, U+2029, U+202F, U+205F, U+3000). No encoding in the list is a
  prefix or a suffix of another one, and a byte sequence that is not valid
  UTF-8 decodes to U+FFFD, which is not a space, so trimming is stripping
  these byte sequences from both ends.
\<close>

definition HasPrefix :: "string \<Rightarrow> string \<Rightarrow> bool" where
  "HasPrefix s prefix = (length prefix \<le> length s \<and> take (length prefix) s = prefix)"

definition HasSuffix :: "string \<Rightarrow> string \<Rightarrow> bool" where
  "HasSuffix s suffix =
     (length suffix \<le> length s \<and> drop (length s - length suffix) s = suffix)"

definition TrimPrefix :: "string \<Rightarrow> string \<Rightarrow> string" where
  "TrimPrefix s prefix = (if HasPrefix s prefix then drop (length prefix) s else s)"

definition TrimSuffix :: "string \<Rightarrow> string \<Rightarrow> string" where
  "TrimSuffix s suffix =
     (if HasSuffix s suffix then take (length s - length suffix) s else s)"

definition spaceRunes :: "string list" where
  "spaceRunes =
     [ [CHR 0x09], [CHR 0x0A], [CHR 0x0B], [CHR 0x0C], [CHR 0x0D], [CHR 0x20],
      [CHR 0xC2, CHR 0x85], [CHR 0xC2, CHR 0xA0],
      [CHR 0xE1, CHR 0x9A, CHR 0x80],
      [CHR 0xE2, CHR 0x80, CHR 0x80], [CHR 0xE2, CHR 0x80, CHR 0x81],
      [CHR 0xE2, CHR 0x80, CHR 0x82], [CHR 0xE2, CHR 0x80, CHR 0x83],
      [CHR 0xE2, CHR 0x80, CHR 0x84], [CHR 0xE2, CHR 0x80, CHR 0x85],
      [CHR 0xE2, CHR 0x80, CHR 0x86], [CHR 0xE2, CHR 0x80, CHR 0x87],
      [CHR 0xE2, CHR 0x80, CHR 0x88], [CHR 0xE2, CHR 0x80, CHR 0x89],
      [CHR 0xE2, CHR 0x80, CHR 0x8A],
      [CHR 0xE2, CHR 0x80, CHR 0xA8], [CHR 0xE2, CHR 0x80, CHR 0xA9],
      [CHR 0xE2, CHR 0x80, CHR 0xAF], [CHR 0xE2, CHR 0x81, CHR 0x9F],
      [CHR 0xE3, CHR 0x80, CHR 0x80] ]"

text \<open>
  The width in bytes of the space rune at the start (at the end) of \<open>s\<close>, 0 if
  none. The trimming loops stop when this width is 0; their second test, that
  the width does not exceed the length of \<open>s\<close>, never fails and is there for the
  termination proof only.
\<close>

definition leadingSpace :: "string \<Rightarrow> nat" where
  "leadingSpace s = (case find (HasPrefix s) spaceRunes of None \<Rightarrow> 0 | Some r \<Rightarrow> length r)"

definition trailingSpace :: "string \<Rightarrow> nat" where
  "trailingSpace s = (case find (HasSuffix s) spaceRunes of None \<Rightarrow> 0 | Some r \<Rightarrow> length r)"

function TrimLeftSpace :: "string \<Rightarrow> string" where
  "TrimLeftSpace s =
     (if leadingSpace s = 0 \<or> length s < leadingSpace s then s
      else TrimLeftSpace (drop (leadingSpace s) s))"
  by pat_completeness auto
termination
  by (relation "measure length") auto

function TrimRightSpace :: "string \<Rightarrow> string" where
  "TrimRightSpace s =
     (if trailingSpace s = 0 \<or> length s < trailingSpace s then s
      else TrimRightSpace (take (length s - trailingSpace s) s))"
  by pat_completeness auto
termination
  by (relation "measure length") auto

definition TrimSpace :: "string \<Rightarrow> string" where
  "TrimSpace s = TrimRightSpace (TrimLeftSpace s)"

text \<open>
  \<^verbatim>\<open>strings.Split(s, sep)\<close> for a separator of one byte (the source passes
  \<^verbatim>\<open>"="\<close>): \<open>s\<close> is cut at every occurrence of the separator, so the result
  has one more element than \<open>s\<close> has separators and is never empty (lemmas
  \<open>length_Split\<close> and \<open>Split_not_Nil\<close>; the case \<open>[]\<close> in the second equation, and
  the case \<open>[]\<close> of \<open>tokens\<close> in \<open>parseConfigLine\<close>, are there to make the
  definitions total).
\<close>

fun Split :: "string \<Rightarrow> char \<Rightarrow> string list" where
  "Split [] sep = [ [] ]"
| "Split (c # cs) sep =
     (if c = sep then [] # Split cs sep
      else (case Split cs sep of
              [] \<Rightarrow> [ [c] ]
            | t # ts \<Rightarrow> (c # t) # ts))"

text \<open>
  A failure of \<^verbatim>\<open>ParseConfig\<close>: the run-time panic of an index expression
  (index, length of the slice), the scanner's \<^verbatim>\<open>bufio.ErrTooLong\<close>, or the
  error of the reader.
\<close>

datatype ioError = IOError string

datatype parseError =
    IndexOutOfRange nat nat
  | ErrTooLong
  | ReadError ioError

definition parseConfigLine :: "string \<Rightarrow> parseError + (string \<times> string)" where
  "parseConfigLine line0 =
     (let line = TrimSpace line0 in
      if HasPrefix line ''CONFIG_'' then
        (let line = TrimPrefix line ''CONFIG_'';
             tokens = Split line (CHR ''='')
         in case tokens of
              [] \<Rightarrow> Inl (IndexOutOfRange 0 0)
            | [t0] \<Rightarrow> Inl (IndexOutOfRange 1 1)
            | t0 # t1 # _ \<Rightarrow> Inr (t0, t1))
      else if HasSuffix line '' is not set'' then
        (let line = TrimSuffix line '' is not set'';
             line = TrimPrefix line ''# CONFIG_''
         in Inr (line, ''n''))
      else Inr ([], []))"

text \<open>
  \<^verbatim>\<open>bufio.Scanner\<close> with the default split function \<^verbatim>\<open>ScanLines\<close>: the input is
  cut at every newline, a last line without a newline counts if it is not
  empty, and one trailing carriage return is dropped from each line. The
  scanner's buffer grows to \<^verbatim>\<open>MaxScanTokenSize\<close> = 65536 bytes; a line that does
  not fit (65536 bytes or more before its newline) stops the scan with
  \<^verbatim>\<open>ErrTooLong\<close>, after the lines before it have been handled.
\<close>

definition dropCR :: "string \<Rightarrow> string" where
  "dropCR data = (if data \<noteq> [] \<and> last data = CHR 0x0D then butlast data else data)"

definition ScanLines :: "string \<Rightarrow> string list" where
  "ScanLines data =
     (let ts = Split data (CHR 0x0A) in if last ts = [] then butlast ts else ts)"

definition MaxScanTokenSize :: nat where
  "MaxScanTokenSize = 64 * 1024"

text \<open>The loop \<^verbatim>\<open>for sc.Scan() { ... }\<close> over the lines that are still unread.\<close>

fun scanLoop :: "string list \<Rightarrow> Config \<Rightarrow> parseError + Config" where
  "scanLoop [] cfg = Inr cfg"
| "scanLoop (raw # rest) cfg =
     (if MaxScanTokenSize \<le> length raw then Inl ErrTooLong
      else (case parseConfigLine (dropCR raw) of
              Inl e \<Rightarrow> Inl e
            | Inr (opt, val) \<Rightarrow>
                scanLoop rest (if opt \<noteq> [] then AList.update opt val cfg else cfg)))"

text \<open>
  The reader is given by the bytes it delivers and by what ends them:
  \<open>None\<close> for \<^verbatim>\<open>io.EOF\<close>, or the error of the failing read. The scanner hands
  out the lines it has buffered before it reports the reader's error.
\<close>

type_synonym Reader = "string \<times> ioError option"

definition ParseConfig :: "Reader \<Rightarrow> parseError + Config" where
  "ParseConfig r =
     (case scanLoop (ScanLines (fst r)) [] of
        Inl e \<Rightarrow> Inl e
      | Inr cfg \<Rightarrow> (case snd r of None \<Rightarrow> Inr cfg | Some err \<Rightarrow> Inl (ReadError err)))"

section \<open>Config.WriteTo\<close>

text \<open>
  An \<^verbatim>\<open>io.Writer\<close> is a state \<open>'w\<close> with its \<^verbatim>\<open>Write\<close> method: the new state,
  the number of bytes written and the error, if any. \<^verbatim>\<open>fmt.Fprintf\<close> formats
  the line and passes it to \<^verbatim>\<open>Write\<close> in one call. The counter \<^verbatim>\<open>N\<close> is an
  \<^verbatim>\<open>int64\<close>; it is modelled as an unbounded integer (an overflow would take
  more than \<open>2^63\<close> bytes of output).
\<close>

type_synonym ('w, 'e) Write = "'w \<Rightarrow> string \<Rightarrow> 'w \<times> int \<times> 'e option"

record ('w, 'e) configWriter =
  cfgw_W :: 'w
  cfgw_N :: int
  cfgw_Err :: "'e option"

text \<open>The two format strings of \<^verbatim>\<open>WriteLine\<close>, with \<^verbatim>\<open>%s\<close> filled in.\<close>

definition configLine :: "string \<Rightarrow> string \<Rightarrow> string" where
  "configLine option value =
     (if value = ''n'' then ''# CONFIG_'' @ option @ '' is not set'' @ [CHR 0x0A]
      else ''CONFIG_'' @ option @ ''='' @ value @ [CHR 0x0A])"

definition WriteLine ::
  "('w, 'e) Write \<Rightarrow> ('w, 'e) configWriter \<Rightarrow> string \<Rightarrow> string \<Rightarrow> ('w, 'e) configWriter" where
  "WriteLine wr cfgw option value =
     (case cfgw_Err cfgw of
        Some _ \<Rightarrow> cfgw
      | None \<Rightarrow>
          (case wr (cfgw_W cfgw) (configLine option value) of
             (w', n, err) \<Rightarrow>
               \<lparr>cfgw_W = w', cfgw_N = cfgw_N cfgw + n, cfgw_Err = err\<rparr>))"

text \<open>
  \<^verbatim>\<open>WriteTo\<close> returns \<^verbatim>\<open>cfgw.N, cfgw.Err\<close>; the model returns the whole
  \<^verbatim>\<open>configWriter\<close>, whose field \<open>cfgw_W\<close> is the writer after the calls. A nil
  \<^verbatim>\<open>Config\<close> ranges like an empty one: both are \<open>[]\<close>.
\<close>

definition WriteTo :: "('w, 'e) Write \<Rightarrow> 'w \<Rightarrow> Config \<Rightarrow> ('w, 'e) configWriter" where
  "WriteTo wr w cfg =
     (let opts = sort (map fst cfg)
      in fold (\<lambda>opt cfgw. WriteLine wr cfgw opt (index cfg opt)) opts
           \<lparr>cfgw_W = w, cfgw_N = 0, cfgw_Err = None\<rparr>)"

text \<open>\<^verbatim>\<open>bytes.Buffer\<close>, the writer of the tests: it appends and never fails.\<close>

definition bufferWrite :: "(string, ioError) Write" where
  "bufferWrite buf p = (buf @ p, int (length p), None)"

section \<open>Notions used to state and prove the properties\<close>

text \<open>
  What the two loops of \<^verbatim>\<open>DiffConfig\<close> collect before the sort: the options of
  \<open>a\<close> that \<open>b\<close> lacks, and the options of \<open>a\<close> that \<open>b\<close> has with another value.
\<close>

definition onlyIn :: "Config \<Rightarrow> Config \<Rightarrow> ConfigValue list" where
  "onlyIn a b = map (\<lambda>(opt, v). \<lparr>cv_Opt = opt, cv_Val = v\<rparr>)
                  (filter (\<lambda>(opt, v). map_of b opt = None) a)"

definition changed :: "Config \<Rightarrow> Config \<Rightarrow> ConfigChange list" where
  "changed a b = map (\<lambda>(opt, v). \<lparr>cc_Opt = opt, cc_OldVal = v, cc_NewVal = index b opt\<rparr>)
                  (filter (\<lambda>(opt, v). map_of b opt \<noteq> None \<and> map_of b opt \<noteq> Some v) a)"

text \<open>The configuration that \<^verbatim>\<open>ApplyDiff\<close> builds when none of its checks fails.\<close>

definition applied :: "Config \<Rightarrow> ConfigDiff \<Rightarrow> Config" where
  "applied cfg diff =
     fold (\<lambda>cv. AList.update (cv_Opt cv) (cv_Val cv)) (InNew diff)
       (fold (\<lambda>cc. AList.update (cc_Opt cc) (cc_NewVal cc)) (Changes diff)
         (fold (\<lambda>cv. AList.delete (cv_Opt cv)) (InOld diff) cfg))"

text \<open>The error that \<^verbatim>\<open>ApplyDiff\<close> returns for a change record that does not fit \<open>cfg\<close>.\<close>

definition changeError :: "Config \<Rightarrow> ConfigChange \<Rightarrow> applyError" where
  "changeError cfg cc =
     (case map_of cfg (cc_Opt cc) of
        None \<Rightarrow> invalidChangeError cc
      | Some oldval \<Rightarrow> mismatchedChangeError cc oldval)"

text \<open>
  The three tests of \<^verbatim>\<open>ApplyDiff\<close> on single entries: an \<^verbatim>\<open>InOld\<close> entry offends
  when its option is absent from \<open>cfg\<close>, a \<^verbatim>\<open>Changes\<close> entry when \<open>cfg\<close> does not
  hold its option with the recorded old value, an \<^verbatim>\<open>InNew\<close> entry when its
  option is present in \<open>cfg\<close>.
\<close>

definition badOld :: "Config \<Rightarrow> ConfigValue \<Rightarrow> bool" where
  "badOld cfg cv = (map_of cfg (cv_Opt cv) = None)"

definition badChange :: "Config \<Rightarrow> ConfigChange \<Rightarrow> bool" where
  "badChange cfg cc = (map_of cfg (cc_Opt cc) \<noteq> Some (cc_OldVal cc))"

definition badNew :: "Config \<Rightarrow> ConfigValue \<Rightarrow> bool" where
  "badNew cfg cv = (map_of cfg (cv_Opt cv) \<noteq> None)"

text \<open>
  A diff that is consistent with \<open>cfg\<close> and with the rules of the diff engine:
  each sequence is strictly ascending by option name, no option is both in
  \<^verbatim>\<open>InOld\<close> and in \<^verbatim>\<open>Changes\<close>, every \<^verbatim>\<open>InOld\<close> entry is an entry of \<open>cfg\<close>,
  every change starts from the value that \<open>cfg\<close> has and leads to a different
  one, and no \<^verbatim>\<open>InNew\<close> option is in \<open>cfg\<close>. Lemma \<open>consistentDiff_iff\<close> shows that
  these are exactly the diffs \<open>DiffConfig cfg b\<close>.
\<close>

definition consistentDiff :: "Config \<Rightarrow> ConfigDiff \<Rightarrow> bool" where
  "consistentDiff cfg diff =
     (sorted_wrt (<) (map cv_Opt (InOld diff)) \<and>
      sorted_wrt (<) (map cc_Opt (Changes diff)) \<and>
      sorted_wrt (<) (map cv_Opt (InNew diff)) \<and>
      list_all (\<lambda>cv. map_of cfg (cv_Opt cv) = Some (cv_Val cv) \<and>
                     cv_Opt cv \<notin> set (map cc_Opt (Changes diff))) (InOld diff) \<and>
      list_all (\<lambda>cc. map_of cfg (cc_Opt cc) = Some (cc_OldVal cc) \<and>
                     cc_OldVal cc \<noteq> cc_NewVal cc) (Changes diff) \<and>
      list_all (\<lambda>cv. map_of cfg (cv_Opt cv) = None) (InNew diff))"

text \<open>Exchanging the old and the new value of a change record.\<close>

definition swapChange :: "ConfigChange \<Rightarrow> ConfigChange" where
  "swapChange cc = \<lparr>cc_Opt = cc_Opt cc, cc_OldVal = cc_NewVal cc, cc_NewVal = cc_OldVal cc\<rparr>"

section \<open>Lemmas about the diff engine\<close>

lemma diffOldStep_apply:
  "diffOldStep new (opt, oldval) diff =
     (case map_of new opt of
       None \<Rightarrow> diff\<lparr>InOld := InOld diff @ [\<lparr>cv_Opt = opt, cv_Val = oldval\<rparr>]\<rparr>
     | Some newval \<Rightarrow>
         if oldval \<noteq> newval
         then diff\<lparr>Changes := Changes diff @
                [\<lparr>cc_Opt = opt, cc_OldVal = oldval, cc_NewVal = newval\<rparr>]\<rparr>
         else diff)"
  by (simp add: diffOldStep_def)

lemma diffNewStep_apply:
  "diffNewStep old (opt, newval) diff =
     (case map_of old opt of
       None \<Rightarrow> diff\<lparr>InNew := InNew diff @ [\<lparr>cv_Opt = opt, cv_Val = newval\<rparr>]\<rparr>
     | Some _ \<Rightarrow> diff)"
  by (simp add: diffNewStep_def)

lemma distinct_map_sort_key:
  fixes f :: "'a \<Rightarrow> 'b::linorder"
  shows "distinct (map f (sort_key f xs)) = distinct (map f xs)"
  by (induction xs) (simp_all add: distinct_insort_key)

lemma fold_diffOldStep:
  "fold (diffOldStep new) old d =
     d\<lparr>InOld := InOld d @ onlyIn old new, Changes := Changes d @ changed old new\<rparr>"
proof (induction old arbitrary: d)
  case Nil
  show ?case by (simp add: onlyIn_def changed_def)
next
  case (Cons p old)
  obtain opt v where p: "p = (opt, v)" by (cases p)
  show ?case
    by (cases "map_of new opt") (simp_all add: Cons.IH p diffOldStep_apply onlyIn_def changed_def index_def)
qed

lemma fold_diffNewStep:
  "fold (diffNewStep old) new d = d\<lparr>InNew := InNew d @ onlyIn new old\<rparr>"
proof (induction new arbitrary: d)
  case Nil
  show ?case by (simp add: onlyIn_def)
next
  case (Cons p new)
  obtain opt v where p: "p = (opt, v)" by (cases p)
  show ?case
    by (cases "map_of old opt") (simp_all add: Cons.IH p diffNewStep_apply onlyIn_def)
qed

lemma DiffConfig_fields:
  "InOld (DiffConfig old new) = sort_key cv_Opt (onlyIn old new)"
  "Changes (DiffConfig old new) = sort_key cc_Opt (changed old new)"
  "InNew (DiffConfig old new) = sort_key cv_Opt (onlyIn new old)"
  by (simp_all add: DiffConfig_def ConfigDiff_sort_def fold_diffOldStep fold_diffNewStep emptyDiff_def)

lemma DiffConfig_eq:
  "DiffConfig old new =
     \<lparr>InOld = sort_key cv_Opt (onlyIn old new),
      Changes = sort_key cc_Opt (changed old new),
      InNew = sort_key cv_Opt (onlyIn new old)\<rparr>"
  by (simp add: DiffConfig_def ConfigDiff_sort_def fold_diffOldStep fold_diffNewStep emptyDiff_def)

lemma isConfig_map_of: "isConfig a \<Longrightarrow> (map_of a k = Some v) = ((k, v) \<in> set a)"
  by (simp add: isConfig_def)

lemma set_onlyIn:
  "isConfig a \<Longrightarrow>
   set (onlyIn a b) = {\<lparr>cv_Opt = k, cv_Val = v\<rparr> | k v. map_of a k = Some v \<and> map_of b k = None}"
  by (auto simp: onlyIn_def isConfig_map_of image_iff)

lemma set_changed:
  "isConfig a \<Longrightarrow>
   set (changed a b) = {\<lparr>cc_Opt = k, cc_OldVal = v, cc_NewVal = w\<rparr> | k v w.
      map_of a k = Some v \<and> map_of b k = Some w \<and> v \<noteq> w}"
  by (auto simp: changed_def isConfig_map_of image_iff index_def)

lemma map_opt_onlyIn: "map cv_Opt (onlyIn a b) = map fst (filter (\<lambda>(opt, v). map_of b opt = None) a)"
  by (simp add: onlyIn_def case_prod_beta cong: map_cong)

lemma map_opt_changed:
  "map cc_Opt (changed a b) =
     map fst (filter (\<lambda>(opt, v). map_of b opt \<noteq> None \<and> map_of b opt \<noteq> Some v) a)"
  by (simp add: changed_def case_prod_beta cong: map_cong)

lemma distinct_onlyIn: "isConfig a \<Longrightarrow> distinct (map cv_Opt (onlyIn a b))"
  by (simp add: map_opt_onlyIn isConfig_def distinct_map_filter)

lemma distinct_changed: "isConfig a \<Longrightarrow> distinct (map cc_Opt (changed a b))"
  by (simp add: map_opt_changed isConfig_def distinct_map_filter)

lemma sorted_by_key_unique:
  fixes f :: "'a \<Rightarrow> 'b::linorder"
  assumes "sorted (map f xs)" "distinct (map f xs)" "sorted (map f ys)" "distinct (map f ys)"
    and "set xs = set ys"
  shows "xs = ys"
proof -
  have "inj_on f (set xs \<union> set ys)"
    using assms(2,5) by (simp add: distinct_map)
  then show ?thesis
    using assms by (rule map_sorted_distinct_set_unique)
qed

lemma sort_key_unique:
  fixes f :: "'a \<Rightarrow> 'b::linorder"
  assumes "distinct (map f xs)" "mset ys = mset xs" "sorted (map f ys)"
  shows "ys = sort_key f xs"
proof (rule sorted_by_key_unique[of f])
  have "mset (map f ys) = mset (map f xs)" using assms(2) by simp
  then have "distinct (map f ys) = distinct (map f xs)" by (rule mset_eq_imp_distinct_iff)
  then show "distinct (map f ys)" using assms(1) by simp
  show "set ys = set (sort_key f xs)" using mset_eq_setD[OF assms(2)] by simp
  show "distinct (map f (sort_key f xs))" using assms(1) by (simp add: distinct_map_sort_key)
qed (simp_all add: assms)

lemma DiffConfig_cong:
  assumes "isConfig a" "isConfig a'" "isConfig b" "isConfig b'"
    and "map_of a = map_of a'" "map_of b = map_of b'"
  shows "DiffConfig a b = DiffConfig a' b'"
proof -
  have 1: "sort_key cv_Opt (onlyIn a b) = sort_key cv_Opt (onlyIn a' b')"
    by (rule sorted_by_key_unique[of cv_Opt])
       (simp_all add: distinct_onlyIn assms distinct_map_sort_key set_onlyIn)
  have 2: "sort_key cv_Opt (onlyIn b a) = sort_key cv_Opt (onlyIn b' a')"
    by (rule sorted_by_key_unique[of cv_Opt])
       (simp_all add: distinct_onlyIn assms distinct_map_sort_key set_onlyIn)
  have 3: "sort_key cc_Opt (changed a b) = sort_key cc_Opt (changed a' b')"
    by (rule sorted_by_key_unique[of cc_Opt])
       (simp_all add: distinct_changed assms distinct_map_sort_key set_changed)
  show ?thesis by (simp add: DiffConfig_eq 1 2 3)
qed

lemma containedIn_iff:
  "isConfig a \<Longrightarrow> containedIn a b = (\<forall>k v. map_of a k = Some v \<longrightarrow> map_of b k = Some v)"
  by (auto simp: containedIn_def list_all_iff isConfig_map_of split: option.splits)

lemma Equal_iff: 
  assumes a: "isConfig a" and b: "isConfig b"
  shows "Equal a b = (map_of a = map_of b)"
proof
  assume "Equal a b"
  then have "containedIn a b" and "containedIn b a"
    unfolding Equal_def by blast+
  then have h: "\<And>k v. map_of a k = Some v \<Longrightarrow> map_of b k = Some v"
    "\<And>k v. map_of b k = Some v \<Longrightarrow> map_of a k = Some v"
    unfolding containedIn_iff[OF a] containedIn_iff[OF b] by blast+
  show "map_of a = map_of b"
  proof
    fix k show "map_of a k = map_of b k"
      using h[of k] by (cases "map_of a k"; cases "map_of b k") auto
  qed
next
  assume "map_of a = map_of b"
  then show "Equal a b"
    unfolding Equal_def containedIn_iff[OF a] containedIn_iff[OF b] by simp
qed

lemma update_fresh: "k \<notin> fst ` set al \<Longrightarrow> AList.update k v al = al @ [(k, v)]"
  by (induction al) auto

lemma fold_update_distinct:
  "distinct (map fst (acc @ xs)) \<Longrightarrow>
   fold (\<lambda>(opt, val) new. AList.update opt val new) xs acc = acc @ xs"
proof (induction xs arbitrary: acc)
  case Nil
  show ?case by simp
next
  case (Cons p xs)
  obtain k v where p: "p = (k, v)" by (cases p)
  have fresh: "k \<notin> fst ` set acc" using Cons.prems by (auto simp: p)
  have "distinct (map fst ((acc @ [(k, v)]) @ xs))" using Cons.prems by (simp add: p)
  from Cons.IH[OF this] show ?case by (simp add: p update_fresh[OF fresh])
qed

lemma copyConfig_id: "isConfig cfg \<Longrightarrow> copyConfig cfg = cfg"
  using fold_update_distinct[of "[]" cfg] by (simp add: copyConfig_def isConfig_def)

lemma applyInOld_find:
  "applyInOld cfg new cvs =
     (case find (\<lambda>cv. map_of cfg (cv_Opt cv) = None) cvs of
        Some cv \<Rightarrow> Inl (invalidOldValueError cv)
      | None \<Rightarrow> Inr (fold (\<lambda>cv. AList.delete (cv_Opt cv)) cvs new))"
  by (induction cvs arbitrary: new) (auto split: option.splits)

lemma applyChanges_find:
  "applyChanges cfg new ccs =
     (case find (\<lambda>cc. map_of cfg (cc_Opt cc) \<noteq> Some (cc_OldVal cc)) ccs of
        Some cc \<Rightarrow> Inl (changeError cfg cc)
      | None \<Rightarrow> Inr (fold (\<lambda>cc. AList.update (cc_Opt cc) (cc_NewVal cc)) ccs new))"
  by (induction ccs arbitrary: new) (auto simp: changeError_def split: option.splits)

lemma applyInNew_find:
  "applyInNew cfg new cvs =
     (case find (\<lambda>cv. map_of cfg (cv_Opt cv) \<noteq> None) cvs of
        Some cv \<Rightarrow> Inl (invalidNewValueError cv)
      | None \<Rightarrow> Inr (fold (\<lambda>cv. AList.update (cv_Opt cv) (cv_Val cv)) cvs new))"
  by (induction cvs arbitrary: new) (auto split: option.splits)

lemma ApplyDiff_find:
  assumes "isConfig cfg"
  shows "ApplyDiff cfg diff =
     (case find (\<lambda>cv. map_of cfg (cv_Opt cv) = None) (InOld diff) of
        Some cv \<Rightarrow> Inl (invalidOldValueError cv)
      | None \<Rightarrow>
         (case find (\<lambda>cc. map_of cfg (cc_Opt cc) \<noteq> Some (cc_OldVal cc)) (Changes diff) of
            Some cc \<Rightarrow> Inl (changeError cfg cc)
          | None \<Rightarrow>
             (case find (\<lambda>cv. map_of cfg (cv_Opt cv) \<noteq> None) (InNew diff) of
                Some cv \<Rightarrow> Inl (invalidNewValueError cv)
              | None \<Rightarrow> Inr (applied cfg diff))))"
  by (simp add: ApplyDiff_def copyConfig_id[OF assms] applyInOld_find applyChanges_find
        applyInNew_find applied_def split: option.splits)

lemma map_of_fold_delete:
  "map_of (fold (\<lambda>cv. AList.delete (cv_Opt cv)) cvs new) k =
     (if k \<in> cv_Opt ` set cvs then None else map_of new k)"
  by (induction cvs arbitrary: new) (auto simp: AList.delete_conv)

lemma map_of_fold_update_notin:
  "k \<notin> f ` set xs \<Longrightarrow> map_of (fold (\<lambda>x. AList.update (f x) (g x)) xs new) k = map_of new k"
  by (induction xs arbitrary: new) (auto simp: AList.update_conv)

lemma map_of_fold_update_in:
  "distinct (map f xs) \<Longrightarrow> x \<in> set xs \<Longrightarrow>
   map_of (fold (\<lambda>x. AList.update (f x) (g x)) xs new) (f x) = Some (g x)"
proof (induction xs arbitrary: new)
  case Nil
  then show ?case by simp
next
  case (Cons y xs)
  show ?case
  proof (cases "x = y")
    case True
    then have "f x \<notin> f ` set xs" using Cons.prems by auto
    then show ?thesis using True by (simp add: map_of_fold_update_notin AList.update_conv)
  next
    case False
    then show ?thesis using Cons by auto
  qed
qed

lemma isConfig_fold_delete:
  "isConfig new \<Longrightarrow> isConfig (fold (\<lambda>cv. AList.delete (cv_Opt cv)) cvs new)"
  by (induction cvs arbitrary: new) (auto simp: isConfig_def AList.distinct_delete)

lemma isConfig_fold_update:
  "isConfig new \<Longrightarrow> isConfig (fold (\<lambda>x. AList.update (f x) (g x)) xs new)"
  by (induction xs arbitrary: new) (auto simp: isConfig_def AList.distinct_update)

lemma isConfig_applied: "isConfig cfg \<Longrightarrow> isConfig (applied cfg diff)"
  by (simp add: applied_def isConfig_fold_update isConfig_fold_delete)

lemma find_None_iff_all: "(find P xs = None) = (\<forall>x\<in>set xs. \<not> P x)"
  by (auto simp: find_None_iff)

lemma applied_InNew:
  assumes "distinct (map cv_Opt (InNew d))" "cv \<in> set (InNew d)"
  shows "map_of (applied cfg d) (cv_Opt cv) = Some (cv_Val cv)"
  unfolding applied_def using assms by (rule map_of_fold_update_in)

lemma applied_Changes:
  assumes "distinct (map cc_Opt (Changes d))" "cc \<in> set (Changes d)"
    and "cc_Opt cc \<notin> cv_Opt ` set (InNew d)"
  shows "map_of (applied cfg d) (cc_Opt cc) = Some (cc_NewVal cc)"
  unfolding applied_def
  by (simp add: map_of_fold_update_notin[OF assms(3)] map_of_fold_update_in[OF assms(1,2)])

lemma applied_other:
  assumes "k \<notin> cv_Opt ` set (InNew d)" "k \<notin> cc_Opt ` set (Changes d)"
  shows "map_of (applied cfg d) k = (if k \<in> cv_Opt ` set (InOld d) then None else map_of cfg k)"
  unfolding applied_def
  by (simp add: map_of_fold_update_notin[OF assms(1)] map_of_fold_update_notin[OF assms(2)]
        map_of_fold_delete)

lemma in_onlyIn_iff:
  "isConfig a \<Longrightarrow> (cv \<in> set (onlyIn a b)) =
     (map_of a (cv_Opt cv) = Some (cv_Val cv) \<and> map_of b (cv_Opt cv) = None)"
  by (cases cv) (auto simp: set_onlyIn)

lemma in_changed_iff:
  "isConfig a \<Longrightarrow> (cc \<in> set (changed a b)) =
     (map_of a (cc_Opt cc) = Some (cc_OldVal cc) \<and> map_of b (cc_Opt cc) = Some (cc_NewVal cc)
      \<and> cc_OldVal cc \<noteq> cc_NewVal cc)"
  by (cases cc) (auto simp: set_changed)

lemma opt_in_onlyIn_iff:
  "isConfig a \<Longrightarrow> (k \<in> cv_Opt ` set (onlyIn a b)) = (map_of a k \<noteq> None \<and> map_of b k = None)"
proof -
  assume a: "isConfig a"
  show ?thesis
  proof
    assume "k \<in> cv_Opt ` set (onlyIn a b)"
    then obtain cv where "cv \<in> set (onlyIn a b)" "k = cv_Opt cv" by auto
    then show "map_of a k \<noteq> None \<and> map_of b k = None" by (simp add: in_onlyIn_iff[OF a])
  next
    assume h: "map_of a k \<noteq> None \<and> map_of b k = None"
    then obtain v where v: "map_of a k = Some v" by auto
    have "\<lparr>cv_Opt = k, cv_Val = v\<rparr> \<in> set (onlyIn a b)"
      using h v by (simp add: in_onlyIn_iff[OF a])
    then show "k \<in> cv_Opt ` set (onlyIn a b)" by force
  qed
qed

lemma opt_in_changed_iff:
  "isConfig a \<Longrightarrow> (k \<in> cc_Opt ` set (changed a b)) =
     (map_of a k \<noteq> None \<and> map_of b k \<noteq> None \<and> map_of a k \<noteq> map_of b k)"
proof -
  assume a: "isConfig a"
  show ?thesis
  proof
    assume "k \<in> cc_Opt ` set (changed a b)"
    then obtain cc where "cc \<in> set (changed a b)" "k = cc_Opt cc" by auto
    then show "map_of a k \<noteq> None \<and> map_of b k \<noteq> None \<and> map_of a k \<noteq> map_of b k"
      by (simp add: in_changed_iff[OF a])
  next
    assume h: "map_of a k \<noteq> None \<and> map_of b k \<noteq> None \<and> map_of a k \<noteq> map_of b k"
    then obtain v w where v: "map_of a k = Some v" "map_of b k = Some w" by auto
    have "\<lparr>cc_Opt = k, cc_OldVal = v, cc_NewVal = w\<rparr> \<in> set (changed a b)"
      using h v by (simp add: in_changed_iff[OF a])
    then show "k \<in> cc_Opt ` set (changed a b)" by force
  qed
qed

lemma ApplyDiff_DiffConfig:
  assumes a: "isConfig a" and b: "isConfig b"
  shows "ApplyDiff a (DiffConfig a b) = Inr (applied a (DiffConfig a b))"
proof -
  have 1: "find (\<lambda>cv. map_of a (cv_Opt cv) = None) (InOld (DiffConfig a b)) = None"
    by (simp add: find_None_iff_all DiffConfig_fields in_onlyIn_iff[OF a])
  have 2: "find (\<lambda>cc. map_of a (cc_Opt cc) \<noteq> Some (cc_OldVal cc)) (Changes (DiffConfig a b)) = None"
    by (simp add: find_None_iff_all DiffConfig_fields in_changed_iff[OF a])
  have 3: "find (\<lambda>cv. map_of a (cv_Opt cv) \<noteq> None) (InNew (DiffConfig a b)) = None"
    by (simp add: find_None_iff_all DiffConfig_fields in_onlyIn_iff[OF b])
  show ?thesis unfolding ApplyDiff_find[OF a] 1 2 3 by simp
qed

lemma map_of_applied_DiffConfig:
  assumes a: "isConfig a" and b: "isConfig b"
  shows "map_of (applied a (DiffConfig a b)) = map_of b"
proof
  fix k
  let ?d = "DiffConfig a b"
  have dn: "distinct (map cv_Opt (InNew ?d))"
    by (simp add: DiffConfig_fields distinct_map_sort_key distinct_onlyIn[OF b])
  have dc: "distinct (map cc_Opt (Changes ?d))"
    by (simp add: DiffConfig_fields distinct_map_sort_key distinct_changed[OF a])
  show "map_of (applied a ?d) k = map_of b k"
  proof (cases "k \<in> cv_Opt ` set (InNew ?d)")
    case True
    then obtain cv where cv: "cv \<in> set (InNew ?d)" "k = cv_Opt cv" by auto
    then have "map_of b k = Some (cv_Val cv)"
      by (simp add: DiffConfig_fields in_onlyIn_iff[OF b])
    then show ?thesis using applied_InNew[OF dn cv(1), of a] cv(2) by simp
  next
    case notnew: False
    show ?thesis
    proof (cases "k \<in> cc_Opt ` set (Changes ?d)")
      case True
      then obtain cc where cc: "cc \<in> set (Changes ?d)" "k = cc_Opt cc" by auto
      then have "map_of b k = Some (cc_NewVal cc)"
        by (simp add: DiffConfig_fields in_changed_iff[OF a])
      then show ?thesis using applied_Changes[OF dc cc(1), of a] notnew cc(2) by simp
    next
      case notch: False
      have n: "\<not> (map_of b k \<noteq> None \<and> map_of a k = None)"
        using notnew by (simp add: DiffConfig_fields opt_in_onlyIn_iff[OF b])
      have c: "\<not> (map_of a k \<noteq> None \<and> map_of b k \<noteq> None \<and> map_of a k \<noteq> map_of b k)"
        using notch by (simp add: DiffConfig_fields opt_in_changed_iff[OF a])
      have "map_of (applied a ?d) k = (if map_of a k \<noteq> None \<and> map_of b k = None then None else map_of a k)"
        by (simp add: applied_other[OF notnew notch] DiffConfig_fields opt_in_onlyIn_iff[OF a])
      then show ?thesis using n c by (cases "map_of a k"; cases "map_of b k") auto
    qed
  qed
qed


lemma map_opt_swapChange: "map cc_Opt (map swapChange xs) = map cc_Opt xs"
  by (simp add: swapChange_def)

lemma in_image_swapChange: "(cc \<in> swapChange ` S) = (swapChange cc \<in> S)"
proof -
  have inv: "\<And>c. swapChange (swapChange c) = c" by (simp add: swapChange_def)
  show ?thesis
  proof
    assume "cc \<in> swapChange ` S"
    then obtain c where "c \<in> S" "cc = swapChange c" by auto
    then show "swapChange cc \<in> S" by (simp add: inv)
  next
    assume "swapChange cc \<in> S"
    then have "swapChange (swapChange cc) \<in> swapChange ` S" by (rule imageI)
    then show "cc \<in> swapChange ` S" by (simp add: inv)
  qed
qed

lemma Changes_swap:
  assumes a: "isConfig a" and b: "isConfig b"
  shows "map swapChange (Changes (DiffConfig a b)) = Changes (DiffConfig b a)"
proof (rule sorted_by_key_unique[of cc_Opt])
  show "sorted (map cc_Opt (map swapChange (Changes (DiffConfig a b))))"
    unfolding map_opt_swapChange by (simp add: DiffConfig_fields)
  show "distinct (map cc_Opt (map swapChange (Changes (DiffConfig a b))))"
    unfolding map_opt_swapChange
    by (simp add: DiffConfig_fields distinct_map_sort_key distinct_changed[OF a])
  show "sorted (map cc_Opt (Changes (DiffConfig b a)))"
    by (simp add: DiffConfig_fields)
  show "distinct (map cc_Opt (Changes (DiffConfig b a)))"
    by (simp add: DiffConfig_fields distinct_map_sort_key distinct_changed[OF b])
  show "set (map swapChange (Changes (DiffConfig a b))) = set (Changes (DiffConfig b a))"
  proof (rule set_eqI)
    fix cc
    have "(cc \<in> set (map swapChange (Changes (DiffConfig a b)))) =
          (swapChange cc \<in> set (changed a b))"
      by (simp add: DiffConfig_fields in_image_swapChange)
    also have "\<dots> = (cc \<in> set (changed b a))"
      unfolding in_changed_iff[OF a] in_changed_iff[OF b] by (auto simp: swapChange_def)
    finally show "(cc \<in> set (map swapChange (Changes (DiffConfig a b)))) =
          (cc \<in> set (Changes (DiffConfig b a)))"
      by (simp add: DiffConfig_fields)
  qed
qed

lemma changed_self: "isConfig a \<Longrightarrow> changed a a = []"
  by (auto simp: changed_def filter_empty_conv isConfig_map_of)

lemma onlyIn_self: "isConfig a \<Longrightarrow> onlyIn a a = []"
  by (auto simp: onlyIn_def filter_empty_conv isConfig_def dest: map_of_SomeD weak_map_of_SomeI)

lemma DiffConfig_self: "isConfig a \<Longrightarrow> DiffConfig a a = emptyDiff"
  by (simp add: DiffConfig_eq changed_self onlyIn_self emptyDiff_def)

lemma consistentDiff_unfold:
  "consistentDiff cfg d =
     ((sorted (map cv_Opt (InOld d)) \<and> distinct (map cv_Opt (InOld d))) \<and>
      (sorted (map cc_Opt (Changes d)) \<and> distinct (map cc_Opt (Changes d))) \<and>
      (sorted (map cv_Opt (InNew d)) \<and> distinct (map cv_Opt (InNew d))) \<and>
      (\<forall>cv \<in> set (InOld d). map_of cfg (cv_Opt cv) = Some (cv_Val cv) \<and>
                               cv_Opt cv \<notin> cc_Opt ` set (Changes d)) \<and>
      (\<forall>cc \<in> set (Changes d). map_of cfg (cc_Opt cc) = Some (cc_OldVal cc) \<and>
                                 cc_OldVal cc \<noteq> cc_NewVal cc) \<and>
      (\<forall>cv \<in> set (InNew d). map_of cfg (cv_Opt cv) = None))"
  by (simp add: consistentDiff_def strict_sorted_iff list_all_iff)

lemma consistentDiff_DiffConfig:
  assumes a: "isConfig a" and b: "isConfig b"
  shows "consistentDiff a (DiffConfig a b)"
  unfolding consistentDiff_unfold
  by (simp add: DiffConfig_fields distinct_map_sort_key distinct_onlyIn[OF a]
        distinct_onlyIn[OF b] distinct_changed[OF a] in_onlyIn_iff[OF a] in_onlyIn_iff[OF b]
        in_changed_iff[OF a] opt_in_changed_iff[OF a])

lemma ApplyDiff_consistent:
  assumes a: "isConfig a" and c: "consistentDiff a d"
  shows "ApplyDiff a d = Inr (applied a d)"
proof -
  have 1: "find (\<lambda>cv. map_of a (cv_Opt cv) = None) (InOld d) = None"
    using c by (simp add: find_None_iff_all consistentDiff_unfold)
  have 2: "find (\<lambda>cc. map_of a (cc_Opt cc) \<noteq> Some (cc_OldVal cc)) (Changes d) = None"
    using c by (simp add: find_None_iff_all consistentDiff_unfold)
  have 3: "find (\<lambda>cv. map_of a (cv_Opt cv) \<noteq> None) (InNew d) = None"
    using c by (simp add: find_None_iff_all consistentDiff_unfold)
  show ?thesis unfolding ApplyDiff_find[OF a] 1 2 3 by simp
qed

lemma DiffConfig_applied:
  assumes a: "isConfig a" and c: "consistentDiff a d"
  shows "DiffConfig a (applied a d) = d"
proof -
  let ?y = "applied a d"
  have y: "isConfig ?y" by (rule isConfig_applied[OF a])
  have so: "sorted (map cv_Opt (InOld d))" and dio: "distinct (map cv_Opt (InOld d))"
    and sc: "sorted (map cc_Opt (Changes d))" and dc: "distinct (map cc_Opt (Changes d))"
    and sn: "sorted (map cv_Opt (InNew d))" and dn: "distinct (map cv_Opt (InNew d))"
    using c unfolding consistentDiff_unfold by blast+
  have io: "\<And>cv. cv \<in> set (InOld d) \<Longrightarrow>
      map_of a (cv_Opt cv) = Some (cv_Val cv) \<and> cv_Opt cv \<notin> cc_Opt ` set (Changes d)"
    using c unfolding consistentDiff_unfold by blast
  have ch: "\<And>cc. cc \<in> set (Changes d) \<Longrightarrow>
      map_of a (cc_Opt cc) = Some (cc_OldVal cc) \<and> cc_OldVal cc \<noteq> cc_NewVal cc"
    using c unfolding consistentDiff_unfold by blast
  have nw: "\<And>cv. cv \<in> set (InNew d) \<Longrightarrow> map_of a (cv_Opt cv) = None"
    using c unfolding consistentDiff_unfold by blast
  have notnew: "\<And>k. map_of a k \<noteq> None \<Longrightarrow> k \<notin> cv_Opt ` set (InNew d)"
    using nw by auto
  have ynew: "\<And>cv. cv \<in> set (InNew d) \<Longrightarrow> map_of ?y (cv_Opt cv) = Some (cv_Val cv)"
    by (rule applied_InNew[OF dn])
  have ych: "\<And>cc. cc \<in> set (Changes d) \<Longrightarrow> map_of ?y (cc_Opt cc) = Some (cc_NewVal cc)"
  proof -
    fix cc assume m: "cc \<in> set (Changes d)"
    have "cc_Opt cc \<notin> cv_Opt ` set (InNew d)" using ch[OF m] notnew by simp
    then show "map_of ?y (cc_Opt cc) = Some (cc_NewVal cc)" by (rule applied_Changes[OF dc m])
  qed
  have yother: "\<And>k. k \<notin> cv_Opt ` set (InNew d) \<Longrightarrow> k \<notin> cc_Opt ` set (Changes d) \<Longrightarrow>
      map_of ?y k = (if k \<in> cv_Opt ` set (InOld d) then None else map_of a k)"
    by (rule applied_other)
  have ynew_k: "\<And>k. k \<in> cv_Opt ` set (InNew d) \<Longrightarrow> map_of ?y k \<noteq> None \<and> map_of a k = None"
    using ynew nw by auto
  have ych_k: "\<And>k. k \<in> cc_Opt ` set (Changes d) \<Longrightarrow> map_of ?y k \<noteq> None \<and> map_of a k \<noteq> None"
    using ych ch by auto

  have f1: "sort_key cv_Opt (onlyIn a ?y) = InOld d"
  proof (rule sorted_by_key_unique[of cv_Opt])
    show "set (sort_key cv_Opt (onlyIn a ?y)) = set (InOld d)"
    proof (rule set_eqI)
      fix cv
      show "(cv \<in> set (sort_key cv_Opt (onlyIn a ?y))) = (cv \<in> set (InOld d))"
      proof
        assume "cv \<in> set (sort_key cv_Opt (onlyIn a ?y))"
        then have h: "map_of a (cv_Opt cv) = Some (cv_Val cv)" "map_of ?y (cv_Opt cv) = None"
          by (simp_all add: in_onlyIn_iff[OF a])
        have n1: "cv_Opt cv \<notin> cv_Opt ` set (InNew d)" using h(2) ynew_k by blast
        have n2: "cv_Opt cv \<notin> cc_Opt ` set (Changes d)" using h(2) ych_k by blast
        have "cv_Opt cv \<in> cv_Opt ` set (InOld d)"
          using yother[OF n1 n2] h by (simp split: if_splits)
        then obtain cv' where cv': "cv' \<in> set (InOld d)" "cv_Opt cv' = cv_Opt cv" by auto
        then have "cv_Val cv' = cv_Val cv" using io[OF cv'(1)] h(1) by simp
        then have "cv' = cv" using cv'(2) by simp
        then show "cv \<in> set (InOld d)" using cv'(1) by simp
      next
        assume m: "cv \<in> set (InOld d)"
        have h1: "map_of a (cv_Opt cv) = Some (cv_Val cv)" using io[OF m] by simp
        have n1: "cv_Opt cv \<notin> cv_Opt ` set (InNew d)" using notnew h1 by simp
        have n2: "cv_Opt cv \<notin> cc_Opt ` set (Changes d)" using io[OF m] by simp
        have "map_of ?y (cv_Opt cv) = None" using yother[OF n1 n2] m by simp
        then show "cv \<in> set (sort_key cv_Opt (onlyIn a ?y))"
          using h1 by (simp add: in_onlyIn_iff[OF a])
      qed
    qed
  qed (simp_all add: so dio distinct_map_sort_key distinct_onlyIn[OF a])

  have f2: "sort_key cc_Opt (changed a ?y) = Changes d"
  proof (rule sorted_by_key_unique[of cc_Opt])
    show "set (sort_key cc_Opt (changed a ?y)) = set (Changes d)"
    proof (rule set_eqI)
      fix cc
      show "(cc \<in> set (sort_key cc_Opt (changed a ?y))) = (cc \<in> set (Changes d))"
      proof
        assume "cc \<in> set (sort_key cc_Opt (changed a ?y))"
        then have h: "map_of a (cc_Opt cc) = Some (cc_OldVal cc)"
          "map_of ?y (cc_Opt cc) = Some (cc_NewVal cc)" "cc_OldVal cc \<noteq> cc_NewVal cc"
          by (simp_all add: in_changed_iff[OF a])
        have n1: "cc_Opt cc \<notin> cv_Opt ` set (InNew d)" using notnew h(1) by simp
        have "cc_Opt cc \<in> cc_Opt ` set (Changes d)"
        proof (rule ccontr)
          assume n2: "cc_Opt cc \<notin> cc_Opt ` set (Changes d)"
          show False using yother[OF n1 n2] h by (simp split: if_splits)
        qed
        then obtain cc' where cc': "cc' \<in> set (Changes d)" "cc_Opt cc' = cc_Opt cc" by auto
        have "cc_OldVal cc' = cc_OldVal cc" using ch[OF cc'(1)] h(1) cc'(2) by simp
        moreover have "cc_NewVal cc' = cc_NewVal cc" using ych[OF cc'(1)] h(2) cc'(2) by simp
        ultimately have "cc' = cc" using cc'(2) by simp
        then show "cc \<in> set (Changes d)" using cc'(1) by simp
      next
        assume m: "cc \<in> set (Changes d)"
        show "cc \<in> set (sort_key cc_Opt (changed a ?y))"
          using ch[OF m] ych[OF m] by (simp add: in_changed_iff[OF a])
      qed
    qed
  qed (simp_all add: sc dc distinct_map_sort_key distinct_changed[OF a])

  have f3: "sort_key cv_Opt (onlyIn ?y a) = InNew d"
  proof (rule sorted_by_key_unique[of cv_Opt])
    show "set (sort_key cv_Opt (onlyIn ?y a)) = set (InNew d)"
    proof (rule set_eqI)
      fix cv
      show "(cv \<in> set (sort_key cv_Opt (onlyIn ?y a))) = (cv \<in> set (InNew d))"
      proof
        assume "cv \<in> set (sort_key cv_Opt (onlyIn ?y a))"
        then have h: "map_of ?y (cv_Opt cv) = Some (cv_Val cv)" "map_of a (cv_Opt cv) = None"
          by (simp_all add: in_onlyIn_iff[OF y])
        have n2: "cv_Opt cv \<notin> cc_Opt ` set (Changes d)" using h(2) ych_k by blast
        have "cv_Opt cv \<in> cv_Opt ` set (InNew d)"
        proof (rule ccontr)
          assume n1: "cv_Opt cv \<notin> cv_Opt ` set (InNew d)"
          show False using yother[OF n1 n2] h by (simp split: if_splits)
        qed
        then obtain cv' where cv': "cv' \<in> set (InNew d)" "cv_Opt cv' = cv_Opt cv" by auto
        then have "cv_Val cv' = cv_Val cv" using ynew[OF cv'(1)] h(1) by simp
        then have "cv' = cv" using cv'(2) by simp
        then show "cv \<in> set (InNew d)" using cv'(1) by simp
      next
        assume m: "cv \<in> set (InNew d)"
        show "cv \<in> set (sort_key cv_Opt (onlyIn ?y a))"
          using nw[OF m] ynew[OF m] by (simp add: in_onlyIn_iff[OF y])
      qed
    qed
  qed (simp_all add: sn dn distinct_map_sort_key distinct_onlyIn[OF y])

  show ?thesis unfolding DiffConfig_eq f1 f2 f3 by simp
qed

lemma consistentDiff_iff:
  assumes a: "isConfig a"
  shows "consistentDiff a d = (\<exists>b. isConfig b \<and> d = DiffConfig a b)"
proof
  assume c: "consistentDiff a d"
  have "isConfig (applied a d) \<and> d = DiffConfig a (applied a d)"
    using isConfig_applied[OF a] DiffConfig_applied[OF a c] by simp
  then show "\<exists>b. isConfig b \<and> d = DiffConfig a b" by blast
next
  assume "\<exists>b. isConfig b \<and> d = DiffConfig a b"
  then show "consistentDiff a d" using consistentDiff_DiffConfig[OF a] by blast
qed

lemma ApplyDiff_cases:
  "ApplyDiff cfg diff =
     (case find (badOld cfg) (InOld diff) of
        Some cv \<Rightarrow> Inl (invalidOldValueError cv)
      | None \<Rightarrow>
         (case find (badChange cfg) (Changes diff) of
            Some cc \<Rightarrow> Inl (changeError cfg cc)
          | None \<Rightarrow>
             (case find (badNew cfg) (InNew diff) of
                Some cv \<Rightarrow> Inl (invalidNewValueError cv)
              | None \<Rightarrow> Inr (applied (copyConfig cfg) diff))))"
proof -
  have 1: "badOld cfg = (\<lambda>cv. map_of cfg (cv_Opt cv) = None)"
    and 2: "badChange cfg = (\<lambda>cc. map_of cfg (cc_Opt cc) \<noteq> Some (cc_OldVal cc))"
    and 3: "badNew cfg = (\<lambda>cv. map_of cfg (cv_Opt cv) \<noteq> None)"
    by (simp_all add: badOld_def badChange_def badNew_def fun_eq_iff)
  show ?thesis
    unfolding 1 2 3
    by (simp add: ApplyDiff_def applyInOld_find applyChanges_find
        applyInNew_find applied_def split: option.splits)
qed

lemma changeError_eq:
  "(changeError cfg c = invalidChangeError cc) = (c = cc \<and> map_of cfg (cc_Opt cc) = None)"
  "(changeError cfg c = mismatchedChangeError cc v) = (c = cc \<and> map_of cfg (cc_Opt cc) = Some v)"
  "changeError cfg c \<noteq> invalidOldValueError cv"
  "changeError cfg c \<noteq> invalidNewValueError cv"
  by (auto simp: changeError_def split: option.splits)

lemma find_badOld_ex:
  "(\<exists>cv. find (badOld cfg) (InOld diff) = Some cv) =
   (\<exists>cv \<in> set (InOld diff). map_of cfg (cv_Opt cv) = None)"
proof -
  have "(\<exists>cv. find (badOld cfg) (InOld diff) = Some cv) = (find (badOld cfg) (InOld diff) \<noteq> None)"
    by simp
  also have "\<dots> = (\<exists>cv \<in> set (InOld diff). badOld cfg cv)"
    unfolding find_None_iff_all by simp
  finally show ?thesis by (simp add: badOld_def)
qed

section \<open>Lemmas about the writer and the parser\<close>

lemma map_insort_key:
  fixes f :: "'a \<Rightarrow> 'b::linorder"
  shows "map f (insort_key f x xs) = insort (f x) (map f xs)"
  by (induction xs) simp_all

lemma map_sort_key:
  fixes f :: "'a \<Rightarrow> 'b::linorder"
  shows "map f (sort_key f xs) = sort (map f xs)"
  by (induction xs) (simp_all add: map_insort_key)

lemma index_isConfig: "isConfig cfg \<Longrightarrow> (opt, val) \<in> set cfg \<Longrightarrow> index cfg opt = val"
  by (simp add: index_def isConfig_def)

lemma WriteTo_pairs:
  assumes "isConfig cfg"
  shows "WriteTo wr w cfg =
           fold (\<lambda>(opt, val) cfgw. WriteLine wr cfgw opt val) (sort_key fst cfg)
             \<lparr>cfgw_W = w, cfgw_N = 0, cfgw_Err = None\<rparr>"
proof -
  have "fold (\<lambda>opt cfgw. WriteLine wr cfgw opt (index cfg opt)) (map fst (sort_key fst cfg)) s
      = fold (\<lambda>(opt, val) cfgw. WriteLine wr cfgw opt val) (sort_key fst cfg) s" for s
    unfolding fold_map
    by (rule fold_cong) (auto simp: index_isConfig[OF assms])
  then show ?thesis by (simp add: WriteTo_def map_sort_key[symmetric])
qed

lemma fold_WriteLine:
  assumes ok: "\<And>w p. \<exists>w'. wr w p = (w', int (length p), None)"
  shows "fold (\<lambda>(opt, val) cfgw. WriteLine wr cfgw opt val) kvs
           \<lparr>cfgw_W = w, cfgw_N = n, cfgw_Err = None\<rparr> =
         \<lparr>cfgw_W = fold (\<lambda>l w. fst (wr w l)) (map (\<lambda>(opt, val). configLine opt val) kvs) w,
          cfgw_N = n + int (length (concat (map (\<lambda>(opt, val). configLine opt val) kvs))),
          cfgw_Err = None\<rparr>"
proof (induction kvs arbitrary: w n)
  case Nil
  show ?case by simp
next
  case (Cons kv kvs)
  obtain opt val where kv: "kv = (opt, val)" by (cases kv)
  obtain w' where w': "wr w (configLine opt val) = (w', int (length (configLine opt val)), None)"
    using ok by blast
  have step: "WriteLine wr \<lparr>cfgw_W = w, cfgw_N = n, cfgw_Err = None\<rparr> opt val =
      \<lparr>cfgw_W = w', cfgw_N = n + int (length (configLine opt val)), cfgw_Err = None\<rparr>"
    by (simp add: WriteLine_def w')
  show ?case by (simp add: kv step Cons.IH w')
qed

lemma Split_no_sep: "sep \<notin> set s \<Longrightarrow> Split s sep = [s]"
  by (induction s) auto

lemma Split_not_Nil: "Split s sep \<noteq> []"
  by (induction s) (auto split: list.splits)

lemma length_Split: "length (Split s sep) = Suc (length (filter (\<lambda>c. c = sep) s))"
  by (induction s) (auto split: list.splits simp: Split_not_Nil)

lemma parseConfigLine_no_equals:
  assumes "HasPrefix (TrimSpace line) ''CONFIG_''" and "CHR ''='' \<notin> set (TrimSpace line)"
  shows "parseConfigLine line = Inl (IndexOutOfRange 1 1)"
proof -
  have "CHR ''='' \<notin> set (TrimPrefix (TrimSpace line) ''CONFIG_'')"
    using assms(2) by (auto simp: TrimPrefix_def dest: in_set_dropD)
  then have "Split (TrimPrefix (TrimSpace line) ''CONFIG_'') (CHR ''='') =
      [TrimPrefix (TrimSpace line) ''CONFIG_'']"
    by (rule Split_no_sep)
  then show ?thesis using assms(1) by (simp add: parseConfigLine_def Let_def)
qed

lemma ParseConfig_one_line:
  assumes "ScanLines text = [raw]" and "length raw < MaxScanTokenSize"
    and "parseConfigLine (dropCR raw) = res"
  shows "ParseConfig (text, None) =
           (case res of Inl e \<Rightarrow> Inl e
            | Inr (opt, val) \<Rightarrow> Inr (if opt \<noteq> [] then [(opt, val)] else []))"
  using assms by (auto simp: ParseConfig_def split: sum.splits)

section \<open>The properties of the specification\<close>

text \<open>
  C1. For all configurations \<open>A\<close> and \<open>B\<close>, \<^verbatim>\<open>A.ApplyDiff(DiffConfig(A, B))\<close>
  returns no error, and the configuration it returns is equal to \<open>B\<close> as a
  mapping from options to values: \<^verbatim>\<open>Equal\<close> holds, and every lookup gives the
  same result.
\<close>

theorem ApplyDiff_DiffConfig_roundtrip:
  assumes "isConfig A" and "isConfig B"
  shows "\<exists>Y. ApplyDiff A (DiffConfig A B) = Inr Y \<and> isConfig Y \<and> Equal Y B \<and>
             map_of Y = map_of B"
proof -
  let ?Y = "applied A (DiffConfig A B)"
  have y: "isConfig ?Y" by (rule isConfig_applied[OF assms(1)])
  have m: "map_of ?Y = map_of B" by (rule map_of_applied_DiffConfig[OF assms])
  have "Equal ?Y B" by (simp add: Equal_iff[OF y assms(2)] m)
  then show ?thesis using ApplyDiff_DiffConfig[OF assms] y m by blast
qed

theorem ApplyDiff_DiffConfig_roundtrip_witness:
  "isConfig [(''X'', ''x''), (''Y'', ''y''), (''Z'', ''z'')] \<and>
   isConfig [(''Z'', ''z''), (''T'', ''t''), (''Y'', ''yy'')] \<and>
   (\<exists>Y. ApplyDiff [(''X'', ''x''), (''Y'', ''y''), (''Z'', ''z'')]
          (DiffConfig [(''X'', ''x''), (''Y'', ''y''), (''Z'', ''z'')]
                      [(''Z'', ''z''), (''T'', ''t''), (''Y'', ''yy'')]) = Inr Y \<and>
        isConfig Y \<and> Equal Y [(''Z'', ''z''), (''T'', ''t''), (''Y'', ''yy'')] \<and>
        map_of Y = map_of [(''Z'', ''z''), (''T'', ''t''), (''Y'', ''yy'')])"
proof -
  have a: "isConfig [(''X'', ''x''), (''Y'', ''y''), (''Z'', ''z'')]"
    by (simp add: isConfig_def)
  have b: "isConfig [(''Z'', ''z''), (''T'', ''t''), (''Y'', ''yy'')]"
    by (simp add: isConfig_def)
  from ApplyDiff_DiffConfig_roundtrip[OF a b] a b show ?thesis by blast
qed

text \<open>
  C2. Let \<open>D\<close> be a diff that is consistent with the configuration \<open>A\<close> and
  with the sorting and non-redundancy rules of the diff engine, that is,
  \<open>consistentDiff A D\<close>; by lemma \<open>consistentDiff_iff\<close> these are exactly the diffs
  that \<^verbatim>\<open>DiffConfig\<close> produces from \<open>A\<close>. If \<^verbatim>\<open>A.ApplyDiff(D)\<close> returns the
  configuration \<open>Y\<close>, then \<^verbatim>\<open>DiffConfig(A, Y)\<close> is \<open>D\<close>, field by field, in
  whatever order \<^verbatim>\<open>DiffConfig\<close> ranges over the two maps: \<open>A'\<close> is any
  enumeration of the map \<open>A\<close> and \<open>Y'\<close> any enumeration of the map \<open>Y\<close>. (By
  lemma \<open>ApplyDiff_consistent\<close> the call does return a configuration.)
\<close>

theorem DiffConfig_ApplyDiff_roundtrip:
  assumes "isConfig A" and "consistentDiff A D" and "ApplyDiff A D = Inr Y"
    and "isConfig A'" and "map_of A' = map_of A"
    and "isConfig Y'" and "map_of Y' = map_of Y"
  shows "DiffConfig A' Y' = D"
proof -
  have y: "Y = applied A D" using ApplyDiff_consistent[OF assms(1,2)] assms(3) by simp
  have iy: "isConfig Y" unfolding y by (rule isConfig_applied[OF assms(1)])
  have "DiffConfig A' Y' = DiffConfig A Y"
    using assms(1,4,5,6,7) iy by (intro DiffConfig_cong) simp_all
  then show ?thesis using DiffConfig_applied[OF assms(1,2)] y by simp
qed

text \<open>
  The first case of \<^verbatim>\<open>applyDiffTests\<close> in the test file, with a second entry
  in \<^verbatim>\<open>InOld\<close> and in \<^verbatim>\<open>InNew\<close>; \<^verbatim>\<open>DiffConfig\<close> ranges over both maps in
  another order than \<^verbatim>\<open>ApplyDiff\<close> read and built them.
\<close>

theorem DiffConfig_ApplyDiff_roundtrip_witness:
  "isConfig [(''X'', ''x''), (''Y'', ''y''), (''Z'', ''z''), (''W'', ''w'')] \<and>
   consistentDiff [(''X'', ''x''), (''Y'', ''y''), (''Z'', ''z''), (''W'', ''w'')]
     \<lparr>InOld = [\<lparr>cv_Opt = ''W'', cv_Val = ''w''\<rparr>, \<lparr>cv_Opt = ''X'', cv_Val = ''x''\<rparr>],
      Changes = [\<lparr>cc_Opt = ''Y'', cc_OldVal = ''y'', cc_NewVal = ''yy''\<rparr>],
      InNew = [\<lparr>cv_Opt = ''S'', cv_Val = ''s''\<rparr>, \<lparr>cv_Opt = ''T'', cv_Val = ''t''\<rparr>]\<rparr> \<and>
   ApplyDiff [(''X'', ''x''), (''Y'', ''y''), (''Z'', ''z''), (''W'', ''w'')]
     \<lparr>InOld = [\<lparr>cv_Opt = ''W'', cv_Val = ''w''\<rparr>, \<lparr>cv_Opt = ''X'', cv_Val = ''x''\<rparr>],
      Changes = [\<lparr>cc_Opt = ''Y'', cc_OldVal = ''y'', cc_NewVal = ''yy''\<rparr>],
      InNew = [\<lparr>cv_Opt = ''S'', cv_Val = ''s''\<rparr>, \<lparr>cv_Opt = ''T'', cv_Val = ''t''\<rparr>]\<rparr>
     = Inr [(''Y'', ''yy''), (''Z'', ''z''), (''S'', ''s''), (''T'', ''t'')] \<and>
   isConfig [(''W'', ''w''), (''Z'', ''z''), (''Y'', ''y''), (''X'', ''x'')] \<and>
   map_of [(''W'', ''w''), (''Z'', ''z''), (''Y'', ''y''), (''X'', ''x'')] =
   map_of [(''X'', ''x''), (''Y'', ''y''), (''Z'', ''z''), (''W'', ''w'')] \<and>
   isConfig [(''T'', ''t''), (''S'', ''s''), (''Z'', ''z''), (''Y'', ''yy'')] \<and>
   map_of [(''T'', ''t''), (''S'', ''s''), (''Z'', ''z''), (''Y'', ''yy'')] =
   map_of [(''Y'', ''yy''), (''Z'', ''z''), (''S'', ''s''), (''T'', ''t'')] \<and>
   DiffConfig [(''W'', ''w''), (''Z'', ''z''), (''Y'', ''y''), (''X'', ''x'')]
              [(''T'', ''t''), (''S'', ''s''), (''Z'', ''z''), (''Y'', ''yy'')] =
     \<lparr>InOld = [\<lparr>cv_Opt = ''W'', cv_Val = ''w''\<rparr>, \<lparr>cv_Opt = ''X'', cv_Val = ''x''\<rparr>],
      Changes = [\<lparr>cc_Opt = ''Y'', cc_OldVal = ''y'', cc_NewVal = ''yy''\<rparr>],
      InNew = [\<lparr>cv_Opt = ''S'', cv_Val = ''s''\<rparr>, \<lparr>cv_Opt = ''T'', cv_Val = ''t''\<rparr>]\<rparr>"
proof -
  let ?A = "[(''X'', ''x''), (''Y'', ''y''), (''Z'', ''z''), (''W'', ''w'')]"
  let ?A' = "[(''W'', ''w''), (''Z'', ''z''), (''Y'', ''y''), (''X'', ''x'')]"
  let ?Y = "[(''Y'', ''yy''), (''Z'', ''z''), (''S'', ''s''), (''T'', ''t'')]"
  let ?Y' = "[(''T'', ''t''), (''S'', ''s''), (''Z'', ''z''), (''Y'', ''yy'')]"
  let ?D = "\<lparr>InOld = [\<lparr>cv_Opt = ''W'', cv_Val = ''w''\<rparr>, \<lparr>cv_Opt = ''X'', cv_Val = ''x''\<rparr>],
      Changes = [\<lparr>cc_Opt = ''Y'', cc_OldVal = ''y'', cc_NewVal = ''yy''\<rparr>],
      InNew = [\<lparr>cv_Opt = ''S'', cv_Val = ''s''\<rparr>, \<lparr>cv_Opt = ''T'', cv_Val = ''t''\<rparr>]\<rparr>"
  have a: "isConfig ?A" by (simp add: isConfig_def)
  have c: "consistentDiff ?A ?D" by (simp add: consistentDiff_def)
  have y: "ApplyDiff ?A ?D = Inr ?Y"
    by (simp add: ApplyDiff_def copyConfig_def AList.delete_eq)
  have a': "isConfig ?A'" by (simp add: isConfig_def)
  have ma: "map_of ?A' = map_of ?A" by (rule ext) simp
  have y': "isConfig ?Y'" by (simp add: isConfig_def)
  have my: "map_of ?Y' = map_of ?Y" by (rule ext) simp
  from DiffConfig_ApplyDiff_roundtrip[OF a c y a' ma y' my] a c y a' ma y' my
  show ?thesis by blast
qed

text \<open>
  C3. Let \<open>A\<close> and \<open>B\<close> be configurations, ranged over in the orders \<open>A\<close>, \<open>B\<close>
  by the call \<^verbatim>\<open>DiffConfig(A, B)\<close> and in any orders \<open>A'\<close>, \<open>B'\<close> of the same two
  maps by the call \<^verbatim>\<open>DiffConfig(B, A)\<close>. Then \<^verbatim>\<open>DiffConfig(A, B).InOld\<close> is
  \<^verbatim>\<open>DiffConfig(B, A).InNew\<close>, \<^verbatim>\<open>DiffConfig(A, B).InNew\<close> is
  \<^verbatim>\<open>DiffConfig(B, A).InOld\<close>, the two \<^verbatim>\<open>Changes\<close> sequences have the same
  length, and at every index the change of \<^verbatim>\<open>DiffConfig(B, A)\<close> has the same
  option as the change of \<^verbatim>\<open>DiffConfig(A, B)\<close>, with old and new value
  exchanged.
\<close>

theorem DiffConfig_symmetry:
  assumes "isConfig A" and "isConfig B" and "isConfig A'" and "isConfig B'"
    and "map_of A' = map_of A" and "map_of B' = map_of B"
  shows "InOld (DiffConfig A B) = InNew (DiffConfig B' A') \<and>
         InNew (DiffConfig A B) = InOld (DiffConfig B' A') \<and>
         length (Changes (DiffConfig B' A')) = length (Changes (DiffConfig A B)) \<and>
         (\<forall>i < length (Changes (DiffConfig A B)).
            cc_Opt (Changes (DiffConfig B' A') ! i) = cc_Opt (Changes (DiffConfig A B) ! i) \<and>
            cc_OldVal (Changes (DiffConfig B' A') ! i) = cc_NewVal (Changes (DiffConfig A B) ! i) \<and>
            cc_NewVal (Changes (DiffConfig B' A') ! i) = cc_OldVal (Changes (DiffConfig A B) ! i))"
proof -
  have re: "DiffConfig B' A' = DiffConfig B A"
    using assms by (intro DiffConfig_cong) simp_all
  have sw: "map swapChange (Changes (DiffConfig A B)) = Changes (DiffConfig B A)"
    by (rule Changes_swap[OF assms(1,2)])
  have len: "length (Changes (DiffConfig B A)) = length (Changes (DiffConfig A B))"
    using arg_cong[OF sw, of length] by simp
  have nth: "\<And>i. i < length (Changes (DiffConfig A B)) \<Longrightarrow>
      Changes (DiffConfig B A) ! i = swapChange (Changes (DiffConfig A B) ! i)"
    using sw by (metis nth_map)
  have io: "InOld (DiffConfig A B) = InNew (DiffConfig B A)"
    "InNew (DiffConfig A B) = InOld (DiffConfig B A)"
    by (simp_all add: DiffConfig_fields)
  have sel: "\<And>c. cc_Opt (swapChange c) = cc_Opt c \<and> cc_OldVal (swapChange c) = cc_NewVal c \<and>
      cc_NewVal (swapChange c) = cc_OldVal c"
    by (simp add: swapChange_def)
  show ?thesis unfolding re using io len by (simp add: nth sel)
qed

text \<open>
  Two options only in \<open>A\<close>, two only in \<open>B\<close>, two changed; the second call
  ranges over both maps in another order than the first.
\<close>

theorem DiffConfig_symmetry_witness:
  "isConfig [(''X'', ''x''), (''Y'', ''y''), (''G'', ''7''), (''F'', ''4'')] \<and>
   isConfig [(''Y'', ''t''), (''T'', ''b''), (''X'', ''z''), (''S'', ''s'')] \<and>
   isConfig [(''F'', ''4''), (''Y'', ''y''), (''X'', ''x''), (''G'', ''7'')] \<and>
   isConfig [(''S'', ''s''), (''X'', ''z''), (''T'', ''b''), (''Y'', ''t'')] \<and>
   map_of [(''F'', ''4''), (''Y'', ''y''), (''X'', ''x''), (''G'', ''7'')] =
   map_of [(''X'', ''x''), (''Y'', ''y''), (''G'', ''7''), (''F'', ''4'')] \<and>
   map_of [(''S'', ''s''), (''X'', ''z''), (''T'', ''b''), (''Y'', ''t'')] =
   map_of [(''Y'', ''t''), (''T'', ''b''), (''X'', ''z''), (''S'', ''s'')] \<and>
   InOld (DiffConfig [(''X'', ''x''), (''Y'', ''y''), (''G'', ''7''), (''F'', ''4'')]
                     [(''Y'', ''t''), (''T'', ''b''), (''X'', ''z''), (''S'', ''s'')]) =
   InNew (DiffConfig [(''S'', ''s''), (''X'', ''z''), (''T'', ''b''), (''Y'', ''t'')]
                     [(''F'', ''4''), (''Y'', ''y''), (''X'', ''x''), (''G'', ''7'')]) \<and>
   InNew (DiffConfig [(''X'', ''x''), (''Y'', ''y''), (''G'', ''7''), (''F'', ''4'')]
                     [(''Y'', ''t''), (''T'', ''b''), (''X'', ''z''), (''S'', ''s'')]) =
   InOld (DiffConfig [(''S'', ''s''), (''X'', ''z''), (''T'', ''b''), (''Y'', ''t'')]
                     [(''F'', ''4''), (''Y'', ''y''), (''X'', ''x''), (''G'', ''7'')]) \<and>
   cc_OldVal (Changes (DiffConfig [(''S'', ''s''), (''X'', ''z''), (''T'', ''b''), (''Y'', ''t'')]
                                  [(''F'', ''4''), (''Y'', ''y''), (''X'', ''x''), (''G'', ''7'')]) ! 1) =
   cc_NewVal (Changes (DiffConfig [(''X'', ''x''), (''Y'', ''y''), (''G'', ''7''), (''F'', ''4'')]
                                  [(''Y'', ''t''), (''T'', ''b''), (''X'', ''z''), (''S'', ''s'')]) ! 1)"
proof -
  let ?A = "[(''X'', ''x''), (''Y'', ''y''), (''G'', ''7''), (''F'', ''4'')]"
  let ?B = "[(''Y'', ''t''), (''T'', ''b''), (''X'', ''z''), (''S'', ''s'')]"
  let ?A' = "[(''F'', ''4''), (''Y'', ''y''), (''X'', ''x''), (''G'', ''7'')]"
  let ?B' = "[(''S'', ''s''), (''X'', ''z''), (''T'', ''b''), (''Y'', ''t'')]"
  have a: "isConfig ?A" by (simp add: isConfig_def)
  have b: "isConfig ?B" by (simp add: isConfig_def)
  have a': "isConfig ?A'" by (simp add: isConfig_def)
  have b': "isConfig ?B'" by (simp add: isConfig_def)
  have ma: "map_of ?A' = map_of ?A" by (rule ext) simp
  have mb: "map_of ?B' = map_of ?B" by (rule ext) simp
  have l: "1 < length (Changes (DiffConfig ?A ?B))"
    by (simp add: DiffConfig_fields changed_def index_def)
  from DiffConfig_symmetry[OF a b a' b' ma mb] l a b a' b' ma mb show ?thesis by blast
qed

text \<open>
  C4 says that a line \<^verbatim>\<open>CONFIG_<NAME>=<value>\<close> is split at its first \<^verbatim>\<open>=\<close> only
  and that the entry holds the complete value. \<^verbatim>\<open>parseConfigLine\<close> calls
  \<^verbatim>\<open>strings.Split\<close>, which cuts the line at every \<^verbatim>\<open>=\<close>, and returns the second
  piece: for the line \<^verbatim>\<open>CONFIG_CMDLINE=console=ttyS0\<close> the value it returns is
  \<^verbatim>\<open>console\<close>, not \<^verbatim>\<open>console=ttyS0\<close>.
\<close>

theorem parseConfigLine_splits_at_every_equals:
  "parseConfigLine ''CONFIG_CMDLINE=console=ttyS0'' = Inr (''CMDLINE'', ''console'')"
  by code_simp

text \<open>
  C5 says that a line ending in \<^verbatim>\<open> is not set\<close> gives an entry only in the
  form \<^verbatim>\<open># CONFIG_<name> is not set\<close>. \<^verbatim>\<open>parseConfigLine\<close> tests the suffix only;
  \<^verbatim>\<open>strings.TrimPrefix\<close> leaves a line without the prefix \<^verbatim>\<open># CONFIG_\<close> as it is.
  The comment line \<^verbatim>\<open># Debug info is not set\<close> gives the option \<^verbatim>\<open># Debug info\<close>
  with value \<^verbatim>\<open>n\<close>, and \<^verbatim>\<open>ParseConfig\<close> records it.
\<close>

theorem parseConfigLine_accepts_other_not_set_lines:
  "parseConfigLine ''# Debug info is not set'' = Inr (''# Debug info'', ''n'') \<and>
   ParseConfig (''# Debug info is not set\<newline>'', None) = Inr [(''# Debug info'', ''n'')]"
proof -
  have l: "parseConfigLine ''# Debug info is not set'' = Inr (''# Debug info'', ''n'')"
    by code_simp
  have s: "ScanLines ''# Debug info is not set\<newline>'' = [''# Debug info is not set'']"
    by code_simp
  have d: "parseConfigLine (dropCR ''# Debug info is not set'') = Inr (''# Debug info'', ''n'')"
    by code_simp
  have "ParseConfig (''# Debug info is not set\<newline>'', None) = Inr [(''# Debug info'', ''n'')]"
    using ParseConfig_one_line[OF s _ d] by (simp add: MaxScanTokenSize_def)
  then show ?thesis using l by simp
qed

text \<open>
  C6 says that parsing, serializing with \<^verbatim>\<open>WriteTo\<close> and parsing again gives
  a configuration equal to the first one. For the input line
  \<^verbatim>\<open>CONFIG_CMDLINE="a = b"\<close> the first parse cuts the value at its \<^verbatim>\<open>=\<close> and keeps
  \<^verbatim>\<open>"a \<close> with the space at its end; \<^verbatim>\<open>WriteTo\<close> writes \<^verbatim>\<open>CONFIG_CMDLINE="a \<close>;
  the second parse trims the line and gives the value \<^verbatim>\<open>"a\<close>. The two
  configurations are not \<^verbatim>\<open>Equal\<close>.
\<close>

theorem ParseConfig_WriteTo_not_idempotent:
  "ParseConfig (''CONFIG_CMDLINE='' @ [CHR 0x22] @ ''a = b'' @ [CHR 0x22] @ ''\<newline>'', None)
     = Inr [(''CMDLINE'', [CHR 0x22] @ ''a '')] \<and>
   cfgw_W (WriteTo bufferWrite [] [(''CMDLINE'', [CHR 0x22] @ ''a '')])
     = ''CONFIG_CMDLINE='' @ [CHR 0x22] @ ''a '' @ ''\<newline>'' \<and>
   ParseConfig (''CONFIG_CMDLINE='' @ [CHR 0x22] @ ''a '' @ ''\<newline>'', None)
     = Inr [(''CMDLINE'', [CHR 0x22] @ ''a'')] \<and>
   \<not> Equal [(''CMDLINE'', [CHR 0x22] @ ''a'')] [(''CMDLINE'', [CHR 0x22] @ ''a '')]"
proof -
  let ?l1 = "''CONFIG_CMDLINE='' @ [CHR 0x22] @ ''a = b'' @ [CHR 0x22]"
  let ?l2 = "''CONFIG_CMDLINE='' @ [CHR 0x22] @ ''a ''"
  have s1: "ScanLines (''CONFIG_CMDLINE='' @ [CHR 0x22] @ ''a = b'' @ [CHR 0x22] @ ''\<newline>'')
      = [?l1]" by code_simp
  have d1: "parseConfigLine (dropCR ?l1) = Inr (''CMDLINE'', [CHR 0x22] @ ''a '')" by code_simp
  have p1: "ParseConfig (''CONFIG_CMDLINE='' @ [CHR 0x22] @ ''a = b'' @ [CHR 0x22] @ ''\<newline>'', None)
     = Inr [(''CMDLINE'', [CHR 0x22] @ ''a '')]"
    using ParseConfig_one_line[OF s1 _ d1] by (simp add: MaxScanTokenSize_def)
  have w: "cfgw_W (WriteTo bufferWrite [] [(''CMDLINE'', [CHR 0x22] @ ''a '')])
     = ''CONFIG_CMDLINE='' @ [CHR 0x22] @ ''a '' @ ''\<newline>''"
    by (simp add: WriteTo_def WriteLine_def bufferWrite_def configLine_def index_def)
  have s2: "ScanLines (''CONFIG_CMDLINE='' @ [CHR 0x22] @ ''a '' @ ''\<newline>'') = [?l2]"
    by code_simp
  have d2: "parseConfigLine (dropCR ?l2) = Inr (''CMDLINE'', [CHR 0x22] @ ''a'')" by code_simp
  have p2: "ParseConfig (''CONFIG_CMDLINE='' @ [CHR 0x22] @ ''a '' @ ''\<newline>'', None)
     = Inr [(''CMDLINE'', [CHR 0x22] @ ''a'')]"
    using ParseConfig_one_line[OF s2 _ d2] by (simp add: MaxScanTokenSize_def)
  have e: "\<not> Equal [(''CMDLINE'', [CHR 0x22] @ ''a'')] [(''CMDLINE'', [CHR 0x22] @ ''a '')]"
    by (simp add: Equal_def containedIn_def)
  show ?thesis using p1 w p2 e by blast
qed

text \<open>
  C7, as stated, fails: \<^verbatim>\<open>ApplyDiff\<close> returns at the first entry that offends,
  in the order \<^verbatim>\<open>InOld\<close>, \<^verbatim>\<open>Changes\<close>, \<^verbatim>\<open>InNew\<close>, so an absent option in
  \<^verbatim>\<open>Changes\<close> does not give \<^verbatim>\<open>invalidChangeError\<close> when an \<^verbatim>\<open>InOld\<close> entry
  offends before it. Here \<^verbatim>\<open>U\<close> of \<^verbatim>\<open>Changes\<close> is absent from the configuration,
  and the error is the \<^verbatim>\<open>invalidOldValueError\<close> of \<^verbatim>\<open>T\<close>.
\<close>

theorem ApplyDiff_error_order_counterexample:
  "map_of [(''X'', ''x'')] ''U'' = None \<and>
   ApplyDiff [(''X'', ''x'')]
     \<lparr>InOld = [\<lparr>cv_Opt = ''T'', cv_Val = ''t''\<rparr>],
      Changes = [\<lparr>cc_Opt = ''U'', cc_OldVal = ''u'', cc_NewVal = ''uu''\<rparr>],
      InNew = []\<rparr>
   = Inl (invalidOldValueError \<lparr>cv_Opt = ''T'', cv_Val = ''t''\<rparr>) \<and>
   ApplyDiff [(''X'', ''x'')]
     \<lparr>InOld = [\<lparr>cv_Opt = ''T'', cv_Val = ''t''\<rparr>],
      Changes = [\<lparr>cc_Opt = ''U'', cc_OldVal = ''u'', cc_NewVal = ''uu''\<rparr>],
      InNew = []\<rparr>
   \<noteq> Inl (invalidChangeError \<lparr>cc_Opt = ''U'', cc_OldVal = ''u'', cc_NewVal = ''uu''\<rparr>)"
  by (simp add: ApplyDiff_def copyConfig_def)

text \<open>
  C7, amended. \<^verbatim>\<open>ApplyDiff\<close> fails at the first offending entry, in the order
  \<^verbatim>\<open>InOld\<close>, \<^verbatim>\<open>Changes\<close>, \<^verbatim>\<open>InNew\<close> (\<open>find P xs = Some x\<close> says that \<open>x\<close> is the
  first element of \<open>xs\<close> with \<open>P\<close>, \<open>find P xs = None\<close> that there is none):
  \<^item> it returns \<^verbatim>\<open>invalidOldValueError(cv)\<close> exactly when \<open>cv\<close> is the first
    \<^verbatim>\<open>InOld\<close> entry whose option is absent from \<open>cfg\<close>; hence it returns some
    \<^verbatim>\<open>invalidOldValueError\<close> exactly when some \<^verbatim>\<open>InOld\<close> option is absent;
  \<^item> it returns \<^verbatim>\<open>invalidChangeError(cc)\<close> exactly when no \<^verbatim>\<open>InOld\<close> entry
    offends, \<open>cc\<close> is the first \<^verbatim>\<open>Changes\<close> entry that \<open>cfg\<close> does not hold with
    the recorded old value, and the option of \<open>cc\<close> is absent from \<open>cfg\<close>;
  \<^item> it returns \<^verbatim>\<open>mismatchedChangeError{cc, v}\<close> exactly when no \<^verbatim>\<open>InOld\<close>
    entry offends, \<open>cc\<close> is that first \<^verbatim>\<open>Changes\<close> entry, and \<open>cfg\<close> holds the
    option of \<open>cc\<close> with the value \<open>v\<close> (which then differs from the recorded
    old value);
  \<^item> it returns \<^verbatim>\<open>invalidNewValueError(cv')\<close> exactly when no \<^verbatim>\<open>InOld\<close> and no
    \<^verbatim>\<open>Changes\<close> entry offends and \<open>cv'\<close> is the first \<^verbatim>\<open>InNew\<close> entry whose
    option is present in \<open>cfg\<close>;
  \<^item> it returns a configuration exactly when no entry offends.
  A failure is a value \<open>Inl e\<close>: it carries no configuration. \<^verbatim>\<open>ApplyDiff\<close> only
  reads \<open>cfg\<close>; every write goes to the copy \<^verbatim>\<open>new\<close>.
\<close>

theorem ApplyDiff_first_offending_entry:
  "((ApplyDiff cfg diff = Inl (invalidOldValueError cv)) =
      (find (badOld cfg) (InOld diff) = Some cv)) \<and>
   ((ApplyDiff cfg diff = Inl (invalidChangeError cc)) =
      (find (badOld cfg) (InOld diff) = None \<and>
       find (badChange cfg) (Changes diff) = Some cc \<and> map_of cfg (cc_Opt cc) = None)) \<and>
   ((ApplyDiff cfg diff = Inl (mismatchedChangeError cc v)) =
      (find (badOld cfg) (InOld diff) = None \<and>
       find (badChange cfg) (Changes diff) = Some cc \<and> map_of cfg (cc_Opt cc) = Some v)) \<and>
   ((ApplyDiff cfg diff = Inl (invalidNewValueError cv')) =
      (find (badOld cfg) (InOld diff) = None \<and> find (badChange cfg) (Changes diff) = None \<and>
       find (badNew cfg) (InNew diff) = Some cv')) \<and>
   ((\<exists>Y. ApplyDiff cfg diff = Inr Y) =
      (find (badOld cfg) (InOld diff) = None \<and> find (badChange cfg) (Changes diff) = None \<and>
       find (badNew cfg) (InNew diff) = None)) \<and>
   ((\<exists>cv. ApplyDiff cfg diff = Inl (invalidOldValueError cv)) =
      (\<exists>cv \<in> set (InOld diff). map_of cfg (cv_Opt cv) = None))"
proof -
  have a: "(ApplyDiff cfg diff = Inl (invalidOldValueError cv)) =
      (find (badOld cfg) (InOld diff) = Some cv)" for cv
    unfolding ApplyDiff_cases by (auto simp: changeError_eq split: option.splits)
  have b: "(ApplyDiff cfg diff = Inl (invalidChangeError cc)) =
      (find (badOld cfg) (InOld diff) = None \<and>
       find (badChange cfg) (Changes diff) = Some cc \<and> map_of cfg (cc_Opt cc) = None)"
    unfolding ApplyDiff_cases by (auto simp: changeError_eq split: option.splits)
  have c: "(ApplyDiff cfg diff = Inl (mismatchedChangeError cc v)) =
      (find (badOld cfg) (InOld diff) = None \<and>
       find (badChange cfg) (Changes diff) = Some cc \<and> map_of cfg (cc_Opt cc) = Some v)"
    unfolding ApplyDiff_cases by (auto simp: changeError_eq split: option.splits)
  have d: "(ApplyDiff cfg diff = Inl (invalidNewValueError cv')) =
      (find (badOld cfg) (InOld diff) = None \<and> find (badChange cfg) (Changes diff) = None \<and>
       find (badNew cfg) (InNew diff) = Some cv')"
    unfolding ApplyDiff_cases by (auto simp: changeError_eq split: option.splits)
  have e: "(\<exists>Y. ApplyDiff cfg diff = Inr Y) =
      (find (badOld cfg) (InOld diff) = None \<and> find (badChange cfg) (Changes diff) = None \<and>
       find (badNew cfg) (InNew diff) = None)"
    unfolding ApplyDiff_cases by (auto split: option.splits)
  have f: "(\<exists>cv. ApplyDiff cfg diff = Inl (invalidOldValueError cv)) =
      (\<exists>cv \<in> set (InOld diff). map_of cfg (cv_Opt cv) = None)"
    unfolding a by (rule find_badOld_ex)
  show ?thesis using a b c d e f by blast
qed

text \<open>
  The fourth case of \<^verbatim>\<open>applyDiffTests\<close> in the test file.
\<close>

theorem ApplyDiff_first_offending_entry_witness:
  "ApplyDiff [(''X'', ''x''), (''Y'', ''y''), (''Z'', ''z'')]
     \<lparr>InOld = [], Changes = [\<lparr>cc_Opt = ''X'', cc_OldVal = ''t'', cc_NewVal = ''tt''\<rparr>],
      InNew = []\<rparr> =
   Inl (mismatchedChangeError \<lparr>cc_Opt = ''X'', cc_OldVal = ''t'', cc_NewVal = ''tt''\<rparr> ''x'')"
  using ApplyDiff_first_offending_entry
    [of "[(''X'', ''x''), (''Y'', ''y''), (''Z'', ''z'')]"
        "\<lparr>InOld = [], Changes = [\<lparr>cc_Opt = ''X'', cc_OldVal = ''t'', cc_NewVal = ''tt''\<rparr>],
          InNew = []\<rparr>"
        _ "\<lparr>cc_Opt = ''X'', cc_OldVal = ''t'', cc_NewVal = ''tt''\<rparr>" "''x''"]
  by (simp add: badChange_def)

text \<open>
  C8. In every diff that \<^verbatim>\<open>DiffConfig\<close> returns, each of the sequences
  \<^verbatim>\<open>InOld\<close>, \<^verbatim>\<open>Changes\<close>, \<^verbatim>\<open>InNew\<close> is ascending by option name in the
  lexicographic order on bytes (and names no option twice), every change
  record has an old value that differs from its new value, an option with the
  same value in both configurations occurs in none of the sequences, and
  \<^verbatim>\<open>DiffConfig(A, A)\<close> has three empty sequences.
\<close>

theorem DiffConfig_sorted_nonredundant:
  assumes "isConfig A" and "isConfig B"
  shows "sorted (map cv_Opt (InOld (DiffConfig A B))) \<and>
         sorted (map cc_Opt (Changes (DiffConfig A B))) \<and>
         sorted (map cv_Opt (InNew (DiffConfig A B))) \<and>
         distinct (map cv_Opt (InOld (DiffConfig A B))) \<and>
         distinct (map cc_Opt (Changes (DiffConfig A B))) \<and>
         distinct (map cv_Opt (InNew (DiffConfig A B))) \<and>
         (\<forall>cc \<in> set (Changes (DiffConfig A B)). cc_OldVal cc \<noteq> cc_NewVal cc) \<and>
         (\<forall>opt v. map_of A opt = Some v \<and> map_of B opt = Some v \<longrightarrow>
            opt \<notin> cv_Opt ` set (InOld (DiffConfig A B)) \<and>
            opt \<notin> cc_Opt ` set (Changes (DiffConfig A B)) \<and>
            opt \<notin> cv_Opt ` set (InNew (DiffConfig A B))) \<and>
         DiffConfig A A = \<lparr>InOld = [], Changes = [], InNew = []\<rparr>"
proof -
  have 1: "\<forall>cc \<in> set (Changes (DiffConfig A B)). cc_OldVal cc \<noteq> cc_NewVal cc"
    by (simp add: DiffConfig_fields in_changed_iff[OF assms(1)])
  have 2: "\<forall>opt v. map_of A opt = Some v \<and> map_of B opt = Some v \<longrightarrow>
            opt \<notin> cv_Opt ` set (InOld (DiffConfig A B)) \<and>
            opt \<notin> cc_Opt ` set (Changes (DiffConfig A B)) \<and>
            opt \<notin> cv_Opt ` set (InNew (DiffConfig A B))"
    by (simp add: DiffConfig_fields opt_in_onlyIn_iff[OF assms(1)] opt_in_onlyIn_iff[OF assms(2)]
          opt_in_changed_iff[OF assms(1)])
  have 3: "DiffConfig A A = \<lparr>InOld = [], Changes = [], InNew = []\<rparr>"
    using DiffConfig_self[OF assms(1)] by (simp add: emptyDiff_def)
  have 4: "distinct (map cv_Opt (InOld (DiffConfig A B)))"
    "distinct (map cc_Opt (Changes (DiffConfig A B)))"
    "distinct (map cv_Opt (InNew (DiffConfig A B)))"
    by (simp_all add: DiffConfig_fields distinct_map_sort_key distinct_onlyIn[OF assms(1)]
          distinct_onlyIn[OF assms(2)] distinct_changed[OF assms(1)])
  have 5: "sorted (map cv_Opt (InOld (DiffConfig A B)))"
    "sorted (map cc_Opt (Changes (DiffConfig A B)))"
    "sorted (map cv_Opt (InNew (DiffConfig A B)))"
    by (simp_all add: DiffConfig_fields)
  show ?thesis using 1 2 3 4 5 by blast
qed

theorem DiffConfig_sorted_nonredundant_witness:
  "isConfig [(''X'', ''x''), (''Y'', ''y''), (''F'', ''4'')] \<and>
   isConfig [(''Y'', ''t''), (''B'', ''b''), (''X'', ''z'')] \<and>
   sorted (map cc_Opt (Changes (DiffConfig [(''X'', ''x''), (''Y'', ''y''), (''F'', ''4'')]
                                           [(''Y'', ''t''), (''B'', ''b''), (''X'', ''z'')]))) \<and>
   cc_OldVal (hd (Changes (DiffConfig [(''X'', ''x''), (''Y'', ''y''), (''F'', ''4'')]
                                      [(''Y'', ''t''), (''B'', ''b''), (''X'', ''z'')]))) \<noteq>
   cc_NewVal (hd (Changes (DiffConfig [(''X'', ''x''), (''Y'', ''y''), (''F'', ''4'')]
                                      [(''Y'', ''t''), (''B'', ''b''), (''X'', ''z'')]))) \<and>
   DiffConfig [(''X'', ''x''), (''Y'', ''y''), (''F'', ''4'')]
              [(''X'', ''x''), (''Y'', ''y''), (''F'', ''4'')] =
     \<lparr>InOld = [], Changes = [], InNew = []\<rparr>"
proof -
  let ?A = "[(''X'', ''x''), (''Y'', ''y''), (''F'', ''4'')]"
  let ?B = "[(''Y'', ''t''), (''B'', ''b''), (''X'', ''z'')]"
  have a: "isConfig ?A" by (simp add: isConfig_def)
  have b: "isConfig ?B" by (simp add: isConfig_def)
  have l: "hd (Changes (DiffConfig ?A ?B)) \<in> set (Changes (DiffConfig ?A ?B))"
    by (simp add: DiffConfig_fields changed_def index_def)
  from DiffConfig_sorted_nonredundant[OF a b] l a b show ?thesis by blast
qed

text \<open>
  C9. Let \<open>wr\<close> be a writer that accepts every write in full, as
  \<^verbatim>\<open>bytes.Buffer\<close> does. For every configuration, \<^verbatim>\<open>WriteTo\<close> passes to it one
  line for each option, in ascending lexicographic order of the option names:
  \<^verbatim>\<open># CONFIG_<name> is not set\<close> for an option with the value \<^verbatim>\<open>n\<close>, and
  \<^verbatim>\<open>CONFIG_<name>=<value>\<close> with the value as it is for any other; it returns
  the number of bytes of these lines and no error. For an empty (or nil)
  configuration nothing is written to any writer: the writer is as before,
  the count is 0 and there is no error.
\<close>

theorem WriteTo_sorted_lines:
  assumes "isConfig cfg"
    and "\<And>w p. \<exists>w'. wr w p = (w', int (length p), None)"
  shows "(let lines = map (\<lambda>(opt, val).
                       if val = ''n'' then ''# CONFIG_'' @ opt @ '' is not set'' @ [CHR 0x0A]
                       else ''CONFIG_'' @ opt @ ''='' @ val @ [CHR 0x0A]) (sort_key fst cfg)
          in WriteTo wr w cfg =
               \<lparr>cfgw_W = fold (\<lambda>l w. fst (wr w l)) lines w,
                cfgw_N = int (length (concat lines)),
                cfgw_Err = None\<rparr>) \<and>
         sorted (map fst (sort_key fst cfg)) \<and>
         mset (sort_key fst cfg) = mset cfg \<and>
         WriteTo wr' w' [] = \<lparr>cfgw_W = w', cfgw_N = 0, cfgw_Err = None\<rparr>"
proof -
  have l: "(\<lambda>(opt, val). if val = ''n'' then ''# CONFIG_'' @ opt @ '' is not set'' @ [CHR 0x0A]
                       else ''CONFIG_'' @ opt @ ''='' @ val @ [CHR 0x0A]) =
           (\<lambda>(opt, val). configLine opt val)"
    by (simp add: configLine_def fun_eq_iff)
  have 1: "WriteTo wr w cfg =
       \<lparr>cfgw_W = fold (\<lambda>l w. fst (wr w l)) (map (\<lambda>(opt, val). configLine opt val) (sort_key fst cfg)) w,
        cfgw_N = int (length (concat (map (\<lambda>(opt, val). configLine opt val) (sort_key fst cfg)))),
        cfgw_Err = None\<rparr>"
    unfolding WriteTo_pairs[OF assms(1)] fold_WriteLine[OF assms(2)] by simp
  have 2: "WriteTo wr' w' [] = \<lparr>cfgw_W = w', cfgw_N = 0, cfgw_Err = None\<rparr>"
    by (simp add: WriteTo_def)
  show ?thesis unfolding l Let_def using 1 2 by simp
qed

text \<open>
  The configuration of \<^verbatim>\<open>testConfigWriteTo\<close>, written to a buffer.
\<close>

theorem WriteTo_sorted_lines_witness:
  "isConfig [(''FOO'', ''n''), (''BAR'', ''y''), (''BAZ'', [CHR 0x22, CHR 0x22]), (''QUUX'', ''42'')] \<and>
   WriteTo bufferWrite []
     [(''FOO'', ''n''), (''BAR'', ''y''), (''BAZ'', [CHR 0x22, CHR 0x22]), (''QUUX'', ''42'')] =
     \<lparr>cfgw_W = ''CONFIG_BAR=y'' @ [CHR 0x0A] @ ''CONFIG_BAZ='' @ [CHR 0x22, CHR 0x22, CHR 0x0A] @
               ''# CONFIG_FOO is not set'' @ [CHR 0x0A] @ ''CONFIG_QUUX=42'' @ [CHR 0x0A],
      cfgw_N = 66, cfgw_Err = None\<rparr>"
proof -
  let ?cfg = "[(''FOO'', ''n''), (''BAR'', ''y''), (''BAZ'', [CHR 0x22, CHR 0x22]), (''QUUX'', ''42'')]"
  have a: "isConfig ?cfg" by (simp add: isConfig_def)
  have b: "\<And>w p. \<exists>w'. bufferWrite w p = (w', int (length p), None)"
    by (simp add: bufferWrite_def)
  have s: "sort_key fst ?cfg =
    [(''BAR'', ''y''), (''BAZ'', [CHR 0x22, CHR 0x22]), (''FOO'', ''n''), (''QUUX'', ''42'')]"
    by simp
  from WriteTo_sorted_lines[where wr = bufferWrite and w = "[]" and cfg = "?cfg"
      and wr' = bufferWrite and w' = "[]", OF a b] a show ?thesis
    unfolding s Let_def by (simp add: bufferWrite_def)
qed

text \<open>
  C10. There is a line that begins with \<^verbatim>\<open>CONFIG_\<close> and contains no \<^verbatim>\<open>=\<close> on
  which \<^verbatim>\<open>parseConfigLine\<close> fails: \<^verbatim>\<open>strings.Split\<close> returns a slice of length 1
  and the index expression \<^verbatim>\<open>tokens[1]\<close> panics. \<^verbatim>\<open>ParseConfig\<close> on an input with
  this line fails in the same way. (Lemma \<open>parseConfigLine_no_equals\<close> shows
  this for every such line.)
\<close>

theorem parseConfigLine_index_out_of_range:
  "\<exists>line. HasPrefix line ''CONFIG_'' \<and> CHR ''='' \<notin> set line \<and>
          parseConfigLine line = Inl (IndexOutOfRange 1 1) \<and>
          ParseConfig (line @ ''\<newline>'', None) = Inl (IndexOutOfRange 1 1)"
proof (rule exI[of _ "''CONFIG_FOO''"], intro conjI)
  show "HasPrefix ''CONFIG_FOO'' ''CONFIG_''" by (simp add: HasPrefix_def)
  show "CHR ''='' \<notin> set ''CONFIG_FOO''" by simp
  show l: "parseConfigLine ''CONFIG_FOO'' = Inl (IndexOutOfRange 1 1)" by code_simp
  have s: "ScanLines (''CONFIG_FOO'' @ ''\<newline>'') = [''CONFIG_FOO'']" by code_simp
  have d: "parseConfigLine (dropCR ''CONFIG_FOO'') = Inl (IndexOutOfRange 1 1)" by code_simp
  show "ParseConfig (''CONFIG_FOO'' @ ''\<newline>'', None) = Inl (IndexOutOfRange 1 1)"
    using ParseConfig_one_line[OF s _ d] by (simp add: MaxScanTokenSize_def)
qed

end
